theory Spec2Isabelle
  imports Main "HOL-Library.Word"
begin

unbundle bit_operations_syntax

section \<open>The RFB client protocol engine of Veyon (VncClientProtocol.cpp)\<close>

text \<open>
  A shallow embedding of \<^verbatim>\<open>src/core/src/VncClientProtocol.cpp\<close>. Bytes are
  8-bit words. The C++ \<^verbatim>\<open>uint\<close> values are natural numbers with the wrap-around
  modulo \<open>2 ^ 32\<close> written out, \<^verbatim>\<open>int\<close> values are integers obtained through
  \<open>to_int\<close> (the two's complement reading that \<^verbatim>\<open>static_cast<int>\<close> performs).
\<close>

type_synonym byte = "8 word"

subsection \<open>Integer conversions and big-endian fields\<close>

definition u32 :: "nat \<Rightarrow> nat" where
  "u32 n = n mod 2 ^ 32"

definition to_int :: "nat \<Rightarrow> int" where
  "to_int n = (if u32 n < 2 ^ 31 then int (u32 n) else int (u32 n) - 2 ^ 32)"

text \<open>\<^verbatim>\<open>qFromBigEndian\<close> on a 16-bit and on a 32-bit field of a packed wire struct.\<close>

fun be16 :: "byte list \<Rightarrow> nat" where
  "be16 (a # b # _) = unat a * 256 + unat b"
| "be16 _ = 0"

fun be32 :: "byte list \<Rightarrow> nat" where
  "be32 (a # b # c # d # _) = unat a * 16777216 + unat b * 65536 + unat c * 256 + unat d"
| "be32 _ = 0"

definition field16 :: "nat \<Rightarrow> byte list \<Rightarrow> nat" where
  "field16 off bs = be16 (drop off bs)"

definition field32 :: "nat \<Rightarrow> byte list \<Rightarrow> nat" where
  "field32 off bs = be32 (drop off bs)"

subsection \<open>Constants of the wire protocol\<close>

text \<open>
  Modelled from the spec: the constants of \<^verbatim>\<open>rfb/rfbproto.h\<close>, a header that the
  source file includes and that is not among the sources. The sizes are those of the wire
  structures the specification describes (12-byte version line, 16-byte challenge,
  4-byte security result, 1-byte client-init); the message type and encoding numbers are
  those of the RFB protocol.
\<close>

abbreviation (input) sz_rfbProtocolVersionMsg :: nat where "sz_rfbProtocolVersionMsg \<equiv> 12"
abbreviation (input) CHALLENGESIZE :: nat where "CHALLENGESIZE \<equiv> 16"
abbreviation (input) sz_rfbClientInitMsg :: nat where "sz_rfbClientInitMsg \<equiv> 1"
abbreviation (input) sz_rfbPixelFormat :: nat where "sz_rfbPixelFormat \<equiv> 16"
abbreviation (input) sz_rfbServerInitMsg :: nat where "sz_rfbServerInitMsg \<equiv> 24"
abbreviation (input) sz_rfbFramebufferUpdateMsg :: nat where "sz_rfbFramebufferUpdateMsg \<equiv> 4"
abbreviation (input) sz_rfbFramebufferUpdateRectHeader :: nat where "sz_rfbFramebufferUpdateRectHeader \<equiv> 12"
abbreviation (input) sz_rfbSetColourMapEntriesMsg :: nat where "sz_rfbSetColourMapEntriesMsg \<equiv> 6"
abbreviation (input) sz_rfbBellMsg :: nat where "sz_rfbBellMsg \<equiv> 1"
abbreviation (input) sz_rfbServerCutTextMsg :: nat where "sz_rfbServerCutTextMsg \<equiv> 8"
abbreviation (input) sz_rfbResizeFrameBufferMsg :: nat where "sz_rfbResizeFrameBufferMsg \<equiv> 6"
abbreviation (input) sz_rfbXvpMsg :: nat where "sz_rfbXvpMsg \<equiv> 4"
abbreviation (input) sz_rfbXCursorColors :: nat where "sz_rfbXCursorColors \<equiv> 6"
abbreviation (input) sz_rfbSupportedMessages :: nat where "sz_rfbSupportedMessages \<equiv> 64"
abbreviation (input) sz_rfbCopyRect :: nat where "sz_rfbCopyRect \<equiv> 4"
abbreviation (input) sz_rfbRREHeader :: nat where "sz_rfbRREHeader \<equiv> 4"
abbreviation (input) sz_rfbRectangle :: nat where "sz_rfbRectangle \<equiv> 8"
abbreviation (input) sz_rfbZlibHeader :: nat where "sz_rfbZlibHeader \<equiv> 4"
abbreviation (input) sz_rfbZRLEHeader :: nat where "sz_rfbZRLEHeader \<equiv> 4"

abbreviation (input) rfbSecTypeInvalid :: byte where "rfbSecTypeInvalid \<equiv> 0"
abbreviation (input) rfbSecTypeNone :: byte where "rfbSecTypeNone \<equiv> 1"
abbreviation (input) rfbSecTypeVncAuth :: byte where "rfbSecTypeVncAuth \<equiv> 2"
abbreviation (input) rfbVncAuthOK :: nat where "rfbVncAuthOK \<equiv> 0"

abbreviation (input) rfbFramebufferUpdate :: byte where "rfbFramebufferUpdate \<equiv> 0"
abbreviation (input) rfbSetColourMapEntries :: byte where "rfbSetColourMapEntries \<equiv> 1"
abbreviation (input) rfbBell :: byte where "rfbBell \<equiv> 2"
abbreviation (input) rfbServerCutText :: byte where "rfbServerCutText \<equiv> 3"
abbreviation (input) rfbResizeFrameBuffer :: byte where "rfbResizeFrameBuffer \<equiv> 4"
abbreviation (input) rfbXvp :: byte where "rfbXvp \<equiv> 250"

abbreviation (input) rfbEncodingRaw :: nat where "rfbEncodingRaw \<equiv> 0"
abbreviation (input) rfbEncodingCopyRect :: nat where "rfbEncodingCopyRect \<equiv> 1"
abbreviation (input) rfbEncodingRRE :: nat where "rfbEncodingRRE \<equiv> 2"
abbreviation (input) rfbEncodingCoRRE :: nat where "rfbEncodingCoRRE \<equiv> 4"
abbreviation (input) rfbEncodingHextile :: nat where "rfbEncodingHextile \<equiv> 5"
abbreviation (input) rfbEncodingZlib :: nat where "rfbEncodingZlib \<equiv> 6"
abbreviation (input) rfbEncodingUltra :: nat where "rfbEncodingUltra \<equiv> 9"
abbreviation (input) rfbEncodingZRLE :: nat where "rfbEncodingZRLE \<equiv> 16"
abbreviation (input) rfbEncodingZYWRLE :: nat where "rfbEncodingZYWRLE \<equiv> 17"
abbreviation (input) rfbEncodingUltraZip :: nat where "rfbEncodingUltraZip \<equiv> 0xFFFF0009"
abbreviation (input) rfbEncodingXCursor :: nat where "rfbEncodingXCursor \<equiv> 0xFFFFFF10"
abbreviation (input) rfbEncodingRichCursor :: nat where "rfbEncodingRichCursor \<equiv> 0xFFFFFF11"
abbreviation (input) rfbEncodingPointerPos :: nat where "rfbEncodingPointerPos \<equiv> 0xFFFFFF18"
abbreviation (input) rfbEncodingLastRect :: nat where "rfbEncodingLastRect \<equiv> 0xFFFFFF20"
abbreviation (input) rfbEncodingNewFBSize :: nat where "rfbEncodingNewFBSize \<equiv> 0xFFFFFF21"
abbreviation (input) rfbEncodingKeyboardLedState :: nat where "rfbEncodingKeyboardLedState \<equiv> 0xFFFE0000"
abbreviation (input) rfbEncodingSupportedMessages :: nat where "rfbEncodingSupportedMessages \<equiv> 0xFFFE0001"
abbreviation (input) rfbEncodingSupportedEncodings :: nat where "rfbEncodingSupportedEncodings \<equiv> 0xFFFE0002"
abbreviation (input) rfbEncodingServerIdentity :: nat where "rfbEncodingServerIdentity \<equiv> 0xFFFE0003"

abbreviation (input) rfbHextileRaw :: byte where "rfbHextileRaw \<equiv> 1"
abbreviation (input) rfbHextileBackgroundSpecified :: byte where "rfbHextileBackgroundSpecified \<equiv> 2"
abbreviation (input) rfbHextileForegroundSpecified :: byte where "rfbHextileForegroundSpecified \<equiv> 4"
abbreviation (input) rfbHextileAnySubrects :: byte where "rfbHextileAnySubrects \<equiv> 8"
abbreviation (input) rfbHextileSubrectsColoured :: byte where "rfbHextileSubrectsColoured \<equiv> 16"

subsection \<open>The transport: a socket with a read buffer\<close>

text \<open>
  The socket is an external collaborator. Its model is the transport adapter of the
  specification: the unread bytes in arrival order, the bytes written so far, and
  whether it has been closed. Reading takes at most the requested number of bytes; a
  negative request yields nothing.
\<close>

record QTcpSocket =
  inbuf :: "byte list"
  outbuf :: "byte list"
  closed :: bool

definition bytesAvailable :: "QTcpSocket \<Rightarrow> nat" where
  "bytesAvailable sock = length (inbuf sock)"

definition sock_peek :: "nat \<Rightarrow> QTcpSocket \<Rightarrow> byte list" where
  "sock_peek n sock = take n (inbuf sock)"

definition sock_read :: "int \<Rightarrow> QTcpSocket \<Rightarrow> byte list \<times> QTcpSocket" where
  "sock_read n sock =
     (if n < 0 then ([], sock)
      else (take (nat n) (inbuf sock), sock\<lparr>inbuf := drop (nat n) (inbuf sock)\<rparr>))"

definition sock_write :: "byte list \<Rightarrow> QTcpSocket \<Rightarrow> QTcpSocket" where
  "sock_write bs sock = sock\<lparr>outbuf := outbuf sock @ bs\<rparr>"

definition sock_close :: "QTcpSocket \<Rightarrow> QTcpSocket" where
  "sock_close sock = sock\<lparr>closed := True\<rparr>"

subsection \<open>The local parse buffer\<close>

text \<open>
  \<^verbatim>\<open>QBuffer\<close> over a copy of the peeked bytes: the data and a read position.
\<close>

record QBuffer =
  buf_data :: "byte list"
  buf_pos :: nat

definition buffer_read :: "int \<Rightarrow> QBuffer \<Rightarrow> byte list \<times> QBuffer" where
  "buffer_read n b =
     (if n < 0 then ([], b)
      else (let bs = take (nat n) (drop (buf_pos b) (buf_data b))
            in (bs, b\<lparr>buf_pos := buf_pos b + length bs\<rparr>)))"

subsection \<open>Rectangles and regions\<close>

text \<open>
  \<^verbatim>\<open>QRect(x, y, w, h)\<close>, and a \<^verbatim>\<open>QRegion\<close> as the list of the non-empty
  rectangles added to it. The points of a region are the union of the points of its
  rectangles; its bounding rectangle is the smallest rectangle containing them, and the
  null rectangle when the region is empty.
\<close>

record QRect =
  rx :: int
  ry :: int
  rw :: int
  rh :: int

definition mkRect :: "int \<Rightarrow> int \<Rightarrow> int \<Rightarrow> int \<Rightarrow> QRect" where
  "mkRect x y w h = \<lparr>rx = x, ry = y, rw = w, rh = h\<rparr>"

type_synonym QRegion = "QRect list"

definition rect_isEmpty :: "QRect \<Rightarrow> bool" where
  "rect_isEmpty r = (rw r \<le> 0 \<or> rh r \<le> 0)"

definition region_add :: "QRegion \<Rightarrow> QRect \<Rightarrow> QRegion" where
  "region_add reg r = (if rect_isEmpty r then reg else reg @ [r])"

definition rect_united :: "QRect \<Rightarrow> QRect \<Rightarrow> QRect" where
  "rect_united a b =
     (let l = min (rx a) (rx b); t = min (ry a) (ry b);
          r = max (rx a + rw a) (rx b + rw b); bo = max (ry a + rh a) (ry b + rh b)
      in mkRect l t (r - l) (bo - t))"

fun boundingRect :: "QRegion \<Rightarrow> QRect" where
  "boundingRect [] = mkRect 0 0 0 0"
| "boundingRect (r # rs) = foldl rect_united r rs"

definition rect_points :: "QRect \<Rightarrow> (int \<times> int) set" where
  "rect_points r = {(px, py). rx r \<le> px \<and> px < rx r + rw r \<and> ry r \<le> py \<and> py < ry r + rh r}"

definition region_points :: "QRegion \<Rightarrow> (int \<times> int) set" where
  "region_points reg = (\<Union>r \<in> set reg. rect_points r)"

subsection \<open>The protocol engine's state\<close>

text \<open>
  The states named by the source file; \<open>Disconnected\<close> stands for the state before
  \<^verbatim>\<open>start()\<close>, handled by the \<^verbatim>\<open>default\<close> branch of \<^verbatim>\<open>read()\<close>.
  The pixel format is kept as the 16 raw bytes copied from the server-init message; its
  first byte is \<^verbatim>\<open>bitsPerPixel\<close>.
\<close>

datatype State =
  Disconnected | Protocol | SecurityInit | SecurityChallenge | SecurityResult
  | FramebufferInit | Running

record VncClientProtocol =
  m_socket :: QTcpSocket
  m_state :: State
  m_vncPassword :: "byte list"
  m_serverInitMessage :: "byte list"
  m_pixelFormat :: "byte list"
  m_framebufferWidth :: nat
  m_framebufferHeight :: nat
  m_lastMessage :: "byte list"
  m_lastUpdatedRect :: QRect

definition start :: "VncClientProtocol \<Rightarrow> VncClientProtocol" where
  "start s = s\<lparr>m_state := Protocol\<rparr>"

definition closeSocket :: "VncClientProtocol \<Rightarrow> VncClientProtocol" where
  "closeSocket s = s\<lparr>m_socket := sock_close (m_socket s)\<rparr>"

subsection \<open>Authentication\<close>

text \<open>
  \<^verbatim>\<open>vncEncryptBytes\<close>. The DES primitive (\<^verbatim>\<open>rfbDesKey\<close> followed by
  \<^verbatim>\<open>rfbDes\<close>, from \<^verbatim>\<open>d3des.h\<close>) is a parameter: \<open>des key block\<close> is the
  block that \<^verbatim>\<open>rfbDes\<close> writes for the 8-byte input \<open>block\<close> after
  \<^verbatim>\<open>rfbDesKey(key, EN0)\<close>. \<open>store\<close> is the in-place write at offset \<open>i\<close>.
\<close>

type_synonym des_primitive = "byte list \<Rightarrow> byte list \<Rightarrow> byte list"

abbreviation (input) KeyLength :: nat where "KeyLength \<equiv> 8"

definition store :: "nat \<Rightarrow> byte list \<Rightarrow> byte list \<Rightarrow> byte list" where
  "store i out bytes = take i bytes @ out @ drop (i + length out) bytes"

definition vncKey :: "byte list \<Rightarrow> byte list" where
  "vncKey passwd = map (\<lambda>i. if i < length passwd then passwd ! i else 0) [0..<KeyLength]"

definition vncEncryptBytes :: "des_primitive \<Rightarrow> byte list \<Rightarrow> byte list \<Rightarrow> byte list" where
  "vncEncryptBytes des bytes passwd =
     (let key = vncKey passwd
      in foldl (\<lambda>bs i. store i (des key (take KeyLength (drop i bs))) bs) bytes [0, KeyLength])"

subsection \<open>The handshake steps\<close>

text \<open>
  The regular expression \<^verbatim>\<open>RFB (\d\d\d)\.(\d\d\d)\n\<close> applied to the 12 bytes
  read: every character of the pattern is ASCII and \<^verbatim>\<open>\d\<close> is an ASCII digit, so
  a 12-byte input matches exactly when it is the pattern byte for byte. The result is the
  two captured digit groups.
\<close>

definition isDigit :: "byte \<Rightarrow> bool" where
  "isDigit c = (0x30 \<le> c \<and> c \<le> 0x39)"

definition versionMatch :: "byte list \<Rightarrow> (byte list \<times> byte list) option" where
  "versionMatch p =
     (if length p = 12 \<and> take 4 p = [0x52, 0x46, 0x42, 0x20] \<and>
         list_all isDigit (take 3 (drop 4 p)) \<and> p ! 7 = 0x2E \<and>
         list_all isDigit (take 3 (drop 8 p)) \<and> p ! 11 = 0x0A
      then Some (take 3 (drop 4 p), take 3 (drop 8 p)) else None)"

definition toInt :: "byte list \<Rightarrow> int" where
  "toInt ds = foldl (\<lambda>acc c. acc * 10 + (uint c - 48)) 0 ds"

definition readProtocol :: "VncClientProtocol \<Rightarrow> bool \<times> VncClientProtocol" where
  "readProtocol s =
     (if bytesAvailable (m_socket s) = sz_rfbProtocolVersionMsg then
        (case sock_read (int sz_rfbProtocolVersionMsg) (m_socket s) of (protocol, sock1) \<Rightarrow>
           if length protocol \<noteq> sz_rfbProtocolVersionMsg
           then (False, s\<lparr>m_socket := sock_close sock1\<rparr>)
           else (case versionMatch protocol of
                   None \<Rightarrow> (False, s\<lparr>m_socket := sock_close sock1\<rparr>)
                 | Some (major, minor) \<Rightarrow>
                     if toInt major \<noteq> 3 \<or> toInt minor < 7
                     then (False, s\<lparr>m_socket := sock_close sock1\<rparr>)
                     else (True, s\<lparr>m_socket := sock_write protocol sock1,
                                    m_state := SecurityInit\<rparr>)))
      else (False, s))"

definition receiveSecurityTypes :: "VncClientProtocol \<Rightarrow> bool \<times> VncClientProtocol" where
  "receiveSecurityTypes s =
     (if bytesAvailable (m_socket s) \<ge> 2 then
        (case sock_read 1 (m_socket s) of (cnt, sock1) \<Rightarrow>
           let securityTypeCount = (case cnt of c # _ \<Rightarrow> unat c | [] \<Rightarrow> 0) in
           if securityTypeCount = 0
           then (False, s\<lparr>m_socket := sock_close sock1\<rparr>)
           else (case sock_read (int securityTypeCount) sock1 of (securityTypeList, sock2) \<Rightarrow>
                   if length securityTypeList \<noteq> securityTypeCount
                   then (False, s\<lparr>m_socket := sock_close sock2\<rparr>)
                   else if rfbSecTypeVncAuth \<in> set securityTypeList
                   then (True, s\<lparr>m_socket := sock_write [rfbSecTypeVncAuth] sock2,
                                  m_state := SecurityChallenge\<rparr>)
                   else if rfbSecTypeNone \<in> set securityTypeList
                   then (True, s\<lparr>m_socket := sock_write [rfbSecTypeNone] sock2,
                                  m_state := SecurityResult\<rparr>)
                   else (False, s\<lparr>m_socket := sock_close sock2\<rparr>)))
      else (False, s))"

definition receiveSecurityChallenge ::
  "des_primitive \<Rightarrow> VncClientProtocol \<Rightarrow> bool \<times> VncClientProtocol" where
  "receiveSecurityChallenge des s =
     (if bytesAvailable (m_socket s) \<ge> CHALLENGESIZE then
        (case sock_read (int CHALLENGESIZE) (m_socket s) of (challenge, sock1) \<Rightarrow>
           let response = vncEncryptBytes des challenge (m_vncPassword s)
           in (True, s\<lparr>m_socket := sock_write (take CHALLENGESIZE response) sock1,
                         m_state := SecurityResult\<rparr>))
      else (False, s))"

definition receiveSecurityResult :: "VncClientProtocol \<Rightarrow> bool \<times> VncClientProtocol" where
  "receiveSecurityResult s =
     (if bytesAvailable (m_socket s) \<ge> 4 then
        (case sock_read 4 (m_socket s) of (authResult, sock1) \<Rightarrow>
           if be32 authResult \<noteq> rfbVncAuthOK
           then (False, s\<lparr>m_socket := sock_close sock1\<rparr>)
           else (True, s\<lparr>m_socket := sock_write [1] sock1, m_state := FramebufferInit\<rparr>))
      else (False, s))"

text \<open>
  \<^verbatim>\<open>rfbServerInitMsg\<close>: framebuffer width and height (2 bytes each), the pixel
  format (16 bytes) and the name length (4 bytes).
\<close>

definition receiveServerInitMessage :: "VncClientProtocol \<Rightarrow> bool \<times> VncClientProtocol" where
  "receiveServerInitMessage s =
     (let message = sock_peek sz_rfbServerInitMsg (m_socket s) in
      if bytesAvailable (m_socket s) \<ge> sz_rfbServerInitMsg \<and>
         length message = sz_rfbServerInitMsg then
        (let nameLength = field32 20 message in
         if nameLength > 255 then (False, closeSocket s)
         else
           (let s1 = s\<lparr>m_pixelFormat := take sz_rfbPixelFormat (drop 4 message)\<rparr> in
            if length (sock_peek nameLength (m_socket s1)) = nameLength then
              (case sock_read (int (sz_rfbServerInitMsg + nameLength)) (m_socket s1) of
                 (msg, sock1) \<Rightarrow>
                   (True, s1\<lparr>m_socket := sock1, m_serverInitMessage := msg,
                              m_framebufferWidth := field16 0 msg,
                              m_framebufferHeight := field16 2 msg,
                              m_state := Running\<rparr>))
            else (False, s1)))
      else (False, s))"

text \<open>\<^verbatim>\<open>read()\<close>: one parse attempt for the current handshake state.\<close>

definition read :: "des_primitive \<Rightarrow> VncClientProtocol \<Rightarrow> bool \<times> VncClientProtocol" where
  "read des s =
     (case m_state s of
        Protocol \<Rightarrow> readProtocol s
      | SecurityInit \<Rightarrow> receiveSecurityTypes s
      | SecurityChallenge \<Rightarrow> receiveSecurityChallenge des s
      | SecurityResult \<Rightarrow> receiveSecurityResult s
      | FramebufferInit \<Rightarrow> receiveServerInitMessage s
      | _ \<Rightarrow> (False, s))"

subsection \<open>Rectangle payload sizing\<close>

text \<open>
  The two idioms of the decoder. \<open>read_uint_ok n\<close> is
  \<^verbatim>\<open>buffer.read( n ).size() == static_cast<int>( n )\<close> for an unsigned \<open>n\<close>, and
  \<open>read_int_ok n\<close> is \<^verbatim>\<open>buffer.read( n ).size() == n\<close> for a signed \<open>n\<close> (also the
  form \<^verbatim>\<open>buffer.read( ptr, n ) == n\<close>). Both advance the buffer by what was read.
\<close>

definition read_uint_ok :: "nat \<Rightarrow> QBuffer \<Rightarrow> bool \<times> QBuffer" where
  "read_uint_ok n b =
     (case buffer_read (int (u32 n)) b of (bs, b') \<Rightarrow> (int (length bs) = to_int n, b'))"

definition read_int_ok :: "int \<Rightarrow> QBuffer \<Rightarrow> bool \<times> QBuffer" where
  "read_int_ok n b =
     (case buffer_read n b of (bs, b') \<Rightarrow> (int (length bs) = n, b'))"

text \<open>Reading a 4-byte header holding one big-endian 32-bit count.\<close>

definition read_header32 :: "QBuffer \<Rightarrow> nat option \<times> QBuffer" where
  "read_header32 b =
     (case buffer_read 4 b of (hdr, b') \<Rightarrow>
        (if length hdr \<noteq> 4 then None else Some (be32 hdr), b'))"

definition handleRectEncodingRRE :: "nat \<Rightarrow> QBuffer \<Rightarrow> bool \<times> QBuffer" where
  "handleRectEncodingRRE bytesPerPixel b =
     (case read_header32 b of
        (None, b1) \<Rightarrow> (False, b1)
      | (Some nSubrects, b1) \<Rightarrow>
          (let rectDataSize = u32 (nSubrects * (bytesPerPixel + sz_rfbRectangle));
               totalDataSize = to_int (bytesPerPixel + rectDataSize)
           in read_int_ok totalDataSize b1))"

definition handleRectEncodingCoRRE :: "nat \<Rightarrow> QBuffer \<Rightarrow> bool \<times> QBuffer" where
  "handleRectEncodingCoRRE bytesPerPixel b =
     (case read_header32 b of
        (None, b1) \<Rightarrow> (False, b1)
      | (Some nSubrects, b1) \<Rightarrow>
          (let rectDataSize = u32 (nSubrects * (bytesPerPixel + 4));
               totalDataSize = to_int (bytesPerPixel + rectDataSize)
           in read_int_ok totalDataSize b1))"

definition handleRectEncodingZlib :: "QBuffer \<Rightarrow> bool \<times> QBuffer" where
  "handleRectEncodingZlib b =
     (case read_header32 b of
        (None, b1) \<Rightarrow> (False, b1)
      | (Some n, b1) \<Rightarrow> read_uint_ok n b1)"

definition handleRectEncodingZRLE :: "QBuffer \<Rightarrow> bool \<times> QBuffer" where
  "handleRectEncodingZRLE b =
     (case read_header32 b of
        (None, b1) \<Rightarrow> (False, b1)
      | (Some n, b1) \<Rightarrow> read_uint_ok n b1)"

text \<open>
  One tile of a Hextile rectangle: the body of the inner loop of
  \<^verbatim>\<open>handleRectEncodingHextile\<close>, for a tile of \<open>w\<close> by \<open>h\<close> pixels. \<open>True\<close> stands
  for reaching the end of the body or a \<^verbatim>\<open>continue\<close>, \<open>False\<close> for
  \<^verbatim>\<open>return false\<close>.
\<close>

definition hextileTile :: "nat \<Rightarrow> nat \<Rightarrow> nat \<Rightarrow> QBuffer \<Rightarrow> bool \<times> QBuffer" where
  "hextileTile w h bytesPerPixel b =
     (case buffer_read 1 b of
        ([subEncoding], b1) \<Rightarrow>
          if subEncoding AND rfbHextileRaw \<noteq> 0
          then read_int_ok (to_int (w * h * bytesPerPixel)) b1
          else
            (case (if subEncoding AND rfbHextileBackgroundSpecified \<noteq> 0
                   then read_uint_ok bytesPerPixel b1 else (True, b1)) of
               (False, b2) \<Rightarrow> (False, b2)
             | (True, b2) \<Rightarrow>
            (case (if subEncoding AND rfbHextileForegroundSpecified \<noteq> 0
                   then read_uint_ok bytesPerPixel b2 else (True, b2)) of
               (False, b3) \<Rightarrow> (False, b3)
             | (True, b3) \<Rightarrow>
                 if subEncoding AND rfbHextileAnySubrects = 0 then (True, b3)
                 else
                   (case buffer_read 1 b3 of
                      ([nSubrects], b4) \<Rightarrow>
                        (let subRectDataSize =
                               (if subEncoding AND rfbHextileSubrectsColoured \<noteq> 0
                                then to_int (unat nSubrects * (2 + bytesPerPixel))
                                else int (unat nSubrects) * 2)
                         in read_int_ok subRectDataSize b4)
                    | (_, b4) \<Rightarrow> (False, b4))))
      | (_, b1) \<Rightarrow> (False, b1))"

text \<open>
  The clipped tile dimensions, and the two loops. The rectangle fields are 16-bit, so
  the unsigned sums \<^verbatim>\<open>rx+rw\<close> and \<^verbatim>\<open>x += 16\<close> stay below \<open>2 ^ 32\<close>.
\<close>

definition tileExtent :: "nat \<Rightarrow> nat \<Rightarrow> nat" where
  "tileExtent limit pos = (if limit - pos < 16 then limit - pos else 16)"

function hextileRow ::
  "nat \<Rightarrow> nat \<Rightarrow> nat \<Rightarrow> nat \<Rightarrow> nat \<Rightarrow> QBuffer \<Rightarrow> bool \<times> QBuffer" where
  "hextileRow xlimit ylimit bytesPerPixel y x b =
     (if x < xlimit then
        (case hextileTile (tileExtent xlimit x) (tileExtent ylimit y) bytesPerPixel b of
           (False, b1) \<Rightarrow> (False, b1)
         | (True, b1) \<Rightarrow> hextileRow xlimit ylimit bytesPerPixel y (x + 16) b1)
      else (True, b))"
  by pat_completeness auto
termination
  by (relation "measure (\<lambda>(xlimit, ylimit, bpp, y, x, b). xlimit - x)") auto

function hextileRows ::
  "nat \<Rightarrow> nat \<Rightarrow> nat \<Rightarrow> nat \<Rightarrow> nat \<Rightarrow> QBuffer \<Rightarrow> bool \<times> QBuffer" where
  "hextileRows x0 xlimit ylimit bytesPerPixel y b =
     (if y < ylimit then
        (case hextileRow xlimit ylimit bytesPerPixel y x0 b of
           (False, b1) \<Rightarrow> (False, b1)
         | (True, b1) \<Rightarrow> hextileRows x0 xlimit ylimit bytesPerPixel (y + 16) b1)
      else (True, b))"
  by pat_completeness auto
termination
  by (relation "measure (\<lambda>(x0, xlimit, ylimit, bpp, y, b). ylimit - y)") auto

text \<open>
  \<^verbatim>\<open>rfbFramebufferUpdateRectHeader\<close> after the byte-order conversion of its fields.
\<close>

record rectHeader =
  r_x :: nat
  r_y :: nat
  r_w :: nat
  r_h :: nat
  encoding :: nat

definition parseRectHeader :: "byte list \<Rightarrow> rectHeader" where
  "parseRectHeader bs =
     \<lparr>r_x = field16 0 bs, r_y = field16 2 bs, r_w = field16 4 bs, r_h = field16 6 bs,
      encoding = field32 8 bs\<rparr>"

definition handleRectEncodingHextile :: "rectHeader \<Rightarrow> nat \<Rightarrow> QBuffer \<Rightarrow> bool \<times> QBuffer" where
  "handleRectEncodingHextile hdr bytesPerPixel b =
     hextileRows (r_x hdr) (r_x hdr + r_w hdr) (r_y hdr + r_h hdr) bytesPerPixel (r_y hdr) b"

definition bitsPerPixel :: "byte list \<Rightarrow> nat" where
  "bitsPerPixel pf = (case pf of [] \<Rightarrow> 0 | b # _ \<Rightarrow> unat b)"

text \<open>\<open>andAlso\<close> is the short-circuit \<^verbatim>\<open>&&\<close> of two reads.\<close>

definition andAlso ::
  "(QBuffer \<Rightarrow> bool \<times> QBuffer) \<Rightarrow> (QBuffer \<Rightarrow> bool \<times> QBuffer) \<Rightarrow> QBuffer \<Rightarrow> bool \<times> QBuffer" where
  "andAlso f g b = (case f b of (False, b1) \<Rightarrow> (False, b1) | (True, b1) \<Rightarrow> g b1)"

definition handleRect ::
  "VncClientProtocol \<Rightarrow> QBuffer \<Rightarrow> rectHeader \<Rightarrow> (bool \<times> QBuffer) \<times> VncClientProtocol" where
  "handleRect s b hdr =
     (let width = r_w hdr; height = r_h hdr;
          bytesPerPixel = bitsPerPixel (m_pixelFormat s) div 8;
          bytesPerRow = (width + 7) div 8;
          e = encoding hdr
      in
      if e = rfbEncodingLastRect then ((True, b), s)
      else if e = rfbEncodingXCursor then
        (if u32 (width * height) = 0 then (True, b)
         else andAlso (read_int_ok (int sz_rfbXCursorColors))
                      (read_uint_ok (2 * bytesPerRow * height)) b, s)
      else if e = rfbEncodingRichCursor then
        (if u32 (width * height) = 0 then (True, b)
         else andAlso (read_uint_ok (width * height * bytesPerPixel))
                      (read_uint_ok (bytesPerRow * height)) b, s)
      else if e = rfbEncodingSupportedMessages then
        (read_int_ok (int sz_rfbSupportedMessages) b, s)
      else if e = rfbEncodingSupportedEncodings \<or> e = rfbEncodingServerIdentity then
        (read_uint_ok width b, s)
      else if e = rfbEncodingRaw then
        (read_uint_ok (width * height * bytesPerPixel) b, s)
      else if e = rfbEncodingCopyRect then
        (read_int_ok (int sz_rfbCopyRect) b, s)
      else if e = rfbEncodingRRE then (handleRectEncodingRRE bytesPerPixel b, s)
      else if e = rfbEncodingCoRRE then (handleRectEncodingCoRRE bytesPerPixel b, s)
      else if e = rfbEncodingHextile then (handleRectEncodingHextile hdr bytesPerPixel b, s)
      else if e = rfbEncodingUltra \<or> e = rfbEncodingUltraZip \<or> e = rfbEncodingZlib then
        (handleRectEncodingZlib b, s)
      else if e = rfbEncodingZRLE \<or> e = rfbEncodingZYWRLE then
        (handleRectEncodingZRLE b, s)
      else if e = rfbEncodingPointerPos \<or> e = rfbEncodingKeyboardLedState \<or>
              e = rfbEncodingNewFBSize then ((True, b), s)
      else ((False, b), closeSocket s))"

definition isPseudoEncoding :: "rectHeader \<Rightarrow> bool" where
  "isPseudoEncoding header =
     (encoding header = rfbEncodingSupportedEncodings \<or>
      encoding header = rfbEncodingSupportedMessages \<or>
      encoding header = rfbEncodingServerIdentity \<or>
      encoding header = rfbEncodingPointerPos \<or>
      encoding header = rfbEncodingKeyboardLedState \<or>
      encoding header = rfbEncodingNewFBSize)"

subsection \<open>Running-state messages\<close>

definition readMessage :: "int \<Rightarrow> VncClientProtocol \<Rightarrow> bool \<times> VncClientProtocol" where
  "readMessage msgSize s =
     (if int (bytesAvailable (m_socket s)) < msgSize then (False, s)
      else (case sock_read msgSize (m_socket s) of (message, sock1) \<Rightarrow>
              if int (length message) = msgSize
              then (True, s\<lparr>m_socket := sock1, m_lastMessage := message\<rparr>)
              else (False, s\<lparr>m_socket := sock1\<rparr>)))"

text \<open>
  The body of the rectangle loop of \<^verbatim>\<open>receiveFramebufferUpdateMessage\<close> and the
  loop itself. The body ends in \<^verbatim>\<open>return false\<close>, in \<^verbatim>\<open>break\<close> or at its end.
\<close>

datatype rect_step = ReturnFalse | BreakLoop | NextRect

definition rectBody ::
  "VncClientProtocol \<Rightarrow> QBuffer \<Rightarrow> QRegion \<Rightarrow> rect_step \<times> VncClientProtocol \<times> QBuffer \<times> QRegion" where
  "rectBody s b updatedRegion =
     (case buffer_read (int sz_rfbFramebufferUpdateRectHeader) b of (hb, b1) \<Rightarrow>
        if length hb \<noteq> sz_rfbFramebufferUpdateRectHeader
        then (ReturnFalse, s, b1, updatedRegion)
        else
          (let hdr = parseRectHeader hb in
           if encoding hdr = rfbEncodingLastRect then (BreakLoop, s, b1, updatedRegion)
           else
             (case handleRect s b1 hdr of ((ok, b2), s2) \<Rightarrow>
                if \<not> ok then (ReturnFalse, s2, b2, updatedRegion)
                else if \<not> isPseudoEncoding hdr \<and>
                        r_x hdr + r_w hdr \<le> m_framebufferWidth s2 \<and>
                        r_y hdr + r_h hdr \<le> m_framebufferHeight s2
                then (NextRect, s2, b2,
                      region_add updatedRegion
                        (mkRect (int (r_x hdr)) (int (r_y hdr)) (int (r_w hdr)) (int (r_h hdr))))
                else (NextRect, s2, b2, updatedRegion))))"

fun rectLoop ::
  "nat \<Rightarrow> VncClientProtocol \<Rightarrow> QBuffer \<Rightarrow> QRegion \<Rightarrow> bool \<times> VncClientProtocol \<times> QBuffer \<times> QRegion" where
  "rectLoop 0 s b updatedRegion = (True, s, b, updatedRegion)"
| "rectLoop (Suc n) s b updatedRegion =
     (case rectBody s b updatedRegion of
        (ReturnFalse, s1, b1, r1) \<Rightarrow> (False, s1, b1, r1)
      | (BreakLoop, s1, b1, r1) \<Rightarrow> (True, s1, b1, r1)
      | (NextRect, s1, b1, r1) \<Rightarrow> rectLoop n s1 b1 r1)"

definition receiveFramebufferUpdateMessage :: "VncClientProtocol \<Rightarrow> bool \<times> VncClientProtocol" where
  "receiveFramebufferUpdateMessage s =
     (let data = sock_peek (bytesAvailable (m_socket s)) (m_socket s);
          buffer = \<lparr>buf_data = data, buf_pos = 0\<rparr>
      in case buffer_read (int sz_rfbFramebufferUpdateMsg) buffer of (message, b1) \<Rightarrow>
           if length message \<noteq> sz_rfbFramebufferUpdateMsg then (False, s)
           else
             (let nRects = field16 2 message in
              case rectLoop nRects s b1 [] of
                (False, s1, b2, updatedRegion) \<Rightarrow> (False, s1)
              | (True, s1, b2, updatedRegion) \<Rightarrow>
                  readMessage (to_int (buf_pos b2))
                    (s1\<lparr>m_lastUpdatedRect := boundingRect updatedRegion\<rparr>)))"

definition receiveColourMapEntriesMessage :: "VncClientProtocol \<Rightarrow> bool \<times> VncClientProtocol" where
  "receiveColourMapEntriesMessage s =
     (let message = sock_peek sz_rfbSetColourMapEntriesMsg (m_socket s) in
      if length message \<noteq> sz_rfbSetColourMapEntriesMsg then (False, s)
      else readMessage (int sz_rfbSetColourMapEntriesMsg + int (field16 4 message) * 6) s)"

definition receiveBellMessage :: "VncClientProtocol \<Rightarrow> bool \<times> VncClientProtocol" where
  "receiveBellMessage s = readMessage (int sz_rfbBellMsg) s"

text \<open>
  The size of a cut-text message is the \<^verbatim>\<open>int\<close> sum of the header size and the
  length field cast to \<^verbatim>\<open>int\<close>; the sum is taken in 32-bit two's complement.
\<close>

definition receiveCutTextMessage :: "VncClientProtocol \<Rightarrow> bool \<times> VncClientProtocol" where
  "receiveCutTextMessage s =
     (let message = sock_peek sz_rfbServerCutTextMsg (m_socket s) in
      if length message \<noteq> sz_rfbServerCutTextMsg then (False, s)
      else readMessage (to_int (sz_rfbServerCutTextMsg + field32 4 message)) s)"

definition receiveResizeFramebufferMessage :: "VncClientProtocol \<Rightarrow> bool \<times> VncClientProtocol" where
  "receiveResizeFramebufferMessage s =
     (case readMessage (int sz_rfbResizeFrameBufferMsg) s of
        (True, s1) \<Rightarrow>
          (True, s1\<lparr>m_framebufferWidth := field16 2 (m_lastMessage s1),
                     m_framebufferHeight := field16 4 (m_lastMessage s1)\<rparr>)
      | (False, s1) \<Rightarrow> (False, s1))"

definition receiveXvpMessage :: "VncClientProtocol \<Rightarrow> bool \<times> VncClientProtocol" where
  "receiveXvpMessage s = readMessage (int sz_rfbXvpMsg) s"

text \<open>
  \<^verbatim>\<open>receiveMessage()\<close>, the entry point for the Running state. The bound
  \<^verbatim>\<open>MaximumMessageSize\<close> is declared in the class header, which is not part of the
  sources at hand, and is a parameter here.
\<close>

definition receiveMessage :: "nat \<Rightarrow> VncClientProtocol \<Rightarrow> bool \<times> VncClientProtocol" where
  "receiveMessage MaximumMessageSize s =
     (if bytesAvailable (m_socket s) > MaximumMessageSize then (False, closeSocket s)
      else
        (case sock_peek 1 (m_socket s) of
           [messageType] \<Rightarrow>
             if messageType = rfbFramebufferUpdate then receiveFramebufferUpdateMessage s
             else if messageType = rfbSetColourMapEntries then receiveColourMapEntriesMessage s
             else if messageType = rfbBell then receiveBellMessage s
             else if messageType = rfbServerCutText then receiveCutTextMessage s
             else if messageType = rfbResizeFrameBuffer then receiveResizeFramebufferMessage s
             else if messageType = rfbXvp then receiveXvpMessage s
             else (False, closeSocket s)
         | _ \<Rightarrow> (False, s)))"

subsection \<open>Driving the engine\<close>

text \<open>
  \<open>arrive\<close> is the transport receiving further bytes from the server. \<open>pump\<close> is the
  caller's loop \<^verbatim>\<open>while( read() ) {}\<close> during the handshake, recording the state
  reached by every successful step; \<open>deliver\<close> feeds a byte stream chunk by chunk and
  pumps after each chunk.
\<close>

definition arrive :: "byte list \<Rightarrow> VncClientProtocol \<Rightarrow> VncClientProtocol" where
  "arrive extra s = s\<lparr>m_socket := (m_socket s)\<lparr>inbuf := inbuf (m_socket s) @ extra\<rparr>\<rparr>"

fun stateRank :: "State \<Rightarrow> nat" where
  "stateRank Disconnected = 0"
| "stateRank Protocol = 1"
| "stateRank SecurityInit = 2"
| "stateRank SecurityChallenge = 3"
| "stateRank SecurityResult = 4"
| "stateRank FramebufferInit = 5"
| "stateRank Running = 6"

function pump :: "des_primitive \<Rightarrow> VncClientProtocol \<Rightarrow> State list \<times> VncClientProtocol" where
  "pump des s =
     (case read des s of
        (True, s1) \<Rightarrow> (case pump des s1 of (trace, s2) \<Rightarrow> (m_state s1 # trace, s2))
      | (False, s1) \<Rightarrow> ([], s1))"
  by pat_completeness auto
termination
  apply (relation "measure (\<lambda>(des, s). 7 - stateRank (m_state s))")
   apply simp
  apply simp
  subgoal for des s x y
    apply (drule sym)
    apply (cases "m_state s")
          apply (auto simp: read_def readProtocol_def receiveSecurityTypes_def
        receiveSecurityChallenge_def receiveSecurityResult_def receiveServerInitMessage_def
        Let_def closeSocket_def
        split: if_splits prod.splits option.splits)
    done
  done

fun deliver ::
  "des_primitive \<Rightarrow> VncClientProtocol \<Rightarrow> byte list list \<Rightarrow> State list \<times> VncClientProtocol" where
  "deliver des s [] = ([], s)"
| "deliver des s (chunk # chunks) =
     (case pump des (arrive chunk s) of
        (trace1, s1) \<Rightarrow>
          (case deliver des s1 chunks of (trace2, s2) \<Rightarrow> (trace1 @ trace2, s2)))"

subsection \<open>Concrete engines and inputs for the examples\<close>

definition ascii :: "string \<Rightarrow> byte list" where
  "ascii cs = map of_char cs"

definition mkSocket :: "byte list \<Rightarrow> QTcpSocket" where
  "mkSocket bs = \<lparr>inbuf = bs, outbuf = [], closed = False\<rparr>"

definition mkEngine :: "State \<Rightarrow> byte list \<Rightarrow> VncClientProtocol" where
  "mkEngine st bs =
     \<lparr>m_socket = mkSocket bs, m_state = st, m_vncPassword = [],
      m_serverInitMessage = [],
      m_pixelFormat = [0, 0, 0, 0, 0, 0, 0, 0, 0, 0, 0, 0, 0, 0, 0, 0],
      m_framebufferWidth = 0, m_framebufferHeight = 0, m_lastMessage = [],
      m_lastUpdatedRect = mkRect 0 0 0 0\<rparr>"

text \<open>
  A server-init header for a 1024 by 768 framebuffer with 32 bits per pixel, declaring
  the given name length.
\<close>

definition serverInitHeader :: "nat \<Rightarrow> byte list" where
  "serverInitHeader nameLength =
     [4, 0, 3, 0, 32, 24, 0, 1, 0, 255, 0, 255, 0, 255, 16, 8, 0, 0, 0, 0,
      0, 0, of_nat (nameLength div 256), of_nat (nameLength mod 256)]"

text \<open>
  A stand-in for the DES primitive, used only to instantiate the parameter in closed
  examples: the bytewise exclusive-or of the key and the block.
\<close>

definition xorCipher :: des_primitive where
  "xorCipher key block =
     map (\<lambda>(k, b). k XOR b)
       (zip (take 8 (key @ replicate 8 0)) (take 8 (block @ replicate 8 0)))"

text \<open>
  The key as the specification words it: the password bytes, null-padded or truncated
  to exactly 8 bytes.
\<close>

definition paddedKey :: "byte list \<Rightarrow> byte list" where
  "paddedKey passwd = take 8 (passwd @ replicate 8 0)"

subsection \<open>Notions used in the statements\<close>

text \<open>
  \<open>ext b extra\<close> is the parse buffer \<open>b\<close> over a snapshot that holds the further bytes
  \<open>extra\<close> at its end; \<open>advances b b'\<close> says that \<open>b'\<close> is \<open>b\<close> read further (its
  position is not before that of \<open>b\<close>), within its data. \<open>withInput bs s\<close> is the
  engine \<open>s\<close> with the unread bytes \<open>bs\<close>.
\<close>

definition ext :: "QBuffer \<Rightarrow> byte list \<Rightarrow> QBuffer" where
  "ext b extra = b\<lparr>buf_data := buf_data b @ extra\<rparr>"

definition advances :: "QBuffer \<Rightarrow> QBuffer \<Rightarrow> bool" where
  "advances b b' =
     (buf_data b' = buf_data b \<and> buf_pos b \<le> buf_pos b' \<and>
      (buf_pos b \<le> length (buf_data b) \<longrightarrow> buf_pos b' \<le> length (buf_data b)))"



definition messageType :: "byte list \<Rightarrow> byte option" where
  "messageType bs = (case bs of [] \<Rightarrow> None | ty # _ \<Rightarrow> Some ty)"


text \<open>
  The rectangles of a framebuffer update, for the statements about the updated region. A
  rectangle on the wire is a pair of its 12 header bytes and its payload. \<open>pixelRegion\<close>
  is what a rectangle of pixel data adds to the updated region: its rectangle, unless
  that reaches beyond the framebuffer geometry or is empty. \<open>metadataEncodings\<close> are the
  encodings that carry a feature list, the server identity, the pointer position, the
  keyboard state or a new framebuffer size; \<open>payloadSize\<close> is the payload length of a Raw
  rectangle and of a rectangle with one of these encodings, as the decoder table of the
  specification gives it. \<open>rawOrMetadata\<close> holds of a Raw or metadata rectangle on the
  wire whose payload has that length, and \<open>rawRegion\<close> collects what the Raw rectangles
  among a list of rectangles add to the region.
\<close>

definition rectOf :: "rectHeader \<Rightarrow> QRect" where
  "rectOf hdr = mkRect (int (r_x hdr)) (int (r_y hdr)) (int (r_w hdr)) (int (r_h hdr))"

definition pixelRegion :: "nat \<Rightarrow> nat \<Rightarrow> rectHeader \<Rightarrow> QRegion" where
  "pixelRegion fbWidth fbHeight hdr =
     (if r_x hdr + r_w hdr \<le> fbWidth \<and> r_y hdr + r_h hdr \<le> fbHeight
      then region_add [] (rectOf hdr) else [])"

definition metadataEncodings :: "nat list" where
  "metadataEncodings =
     [rfbEncodingSupportedEncodings, rfbEncodingSupportedMessages, rfbEncodingServerIdentity,
      rfbEncodingPointerPos, rfbEncodingKeyboardLedState, rfbEncodingNewFBSize]"

definition payloadSize :: "nat \<Rightarrow> rectHeader \<Rightarrow> nat" where
  "payloadSize bytesPerPixel hdr =
     (if encoding hdr = rfbEncodingRaw then r_w hdr * r_h hdr * bytesPerPixel
      else if encoding hdr = rfbEncodingSupportedMessages then sz_rfbSupportedMessages
      else if encoding hdr = rfbEncodingSupportedEncodings \<or>
              encoding hdr = rfbEncodingServerIdentity then r_w hdr
      else 0)"

type_synonym rectItem = "byte list \<times> byte list"

definition itemHeader :: "rectItem \<Rightarrow> rectHeader" where
  "itemHeader item = parseRectHeader (fst item)"

definition itemBytes :: "rectItem \<Rightarrow> byte list" where
  "itemBytes item = fst item @ snd item"

definition rawOrMetadata :: "nat \<Rightarrow> rectItem \<Rightarrow> bool" where
  "rawOrMetadata bytesPerPixel item =
     (length (fst item) = sz_rfbFramebufferUpdateRectHeader \<and>
      (encoding (itemHeader item) = rfbEncodingRaw \<or>
       encoding (itemHeader item) \<in> set metadataEncodings) \<and>
      length (snd item) = payloadSize bytesPerPixel (itemHeader item))"

definition rawRegion :: "nat \<Rightarrow> nat \<Rightarrow> rectItem list \<Rightarrow> QRegion" where
  "rawRegion fbWidth fbHeight items =
     concat (map (\<lambda>item. pixelRegion fbWidth fbHeight (itemHeader item))
               (filter (\<lambda>item. encoding (itemHeader item) = rfbEncodingRaw) items))"

text \<open>
  The tiles of a Hextile rectangle as the specification describes the traversal: tiles of
  16 by 16 pixels, row by row from the top left corner, the tiles of the last column and
  of the last row clipped to the rectangle. \<open>tileOrigins\<close> are the tile coordinates along
  one axis, \<open>tileSize\<close> is the clipped width and height of the tile at a given origin, and
  \<open>rectTiles\<close> lists the tile sizes of a rectangle in the order of the traversal.
  \<open>rawTile payload\<close> is a tile on the wire whose sub-encoding byte has only the raw bit
  set, and \<open>rawPayload\<close> says that a payload has one pixel value for every pixel of a tile
  of the given size.
\<close>

definition tileOrigins :: "nat \<Rightarrow> nat \<Rightarrow> nat list" where
  "tileOrigins origin len = map (\<lambda>i. origin + 16 * i) [0..<(len + 15) div 16]"

definition tileSize :: "rectHeader \<Rightarrow> nat \<Rightarrow> nat \<Rightarrow> nat \<times> nat" where
  "tileSize hdr y x = (min 16 (r_x hdr + r_w hdr - x), min 16 (r_y hdr + r_h hdr - y))"

definition rectTiles :: "rectHeader \<Rightarrow> (nat \<times> nat) list" where
  "rectTiles hdr =
     concat (map (\<lambda>y. map (tileSize hdr y) (tileOrigins (r_x hdr) (r_w hdr)))
               (tileOrigins (r_y hdr) (r_h hdr)))"

definition rawTile :: "byte list \<Rightarrow> byte list" where
  "rawTile payload = rfbHextileRaw # payload"

definition rawPayload :: "nat \<Rightarrow> nat \<times> nat \<Rightarrow> byte list \<Rightarrow> bool" where
  "rawPayload bytesPerPixel wh payload = (length payload = fst wh * snd wh * bytesPerPixel)"

text \<open>
  An engine in the Running state with a 10 by 10 framebuffer and 8 bits per pixel.
\<close>

definition mkRunning :: "byte list \<Rightarrow> VncClientProtocol" where
  "mkRunning bs =
     (mkEngine Running bs)
       \<lparr>m_pixelFormat := [8, 8, 0, 1, 0, 7, 0, 7, 0, 3, 0, 3, 6, 0, 0, 0],
         m_framebufferWidth := 10, m_framebufferHeight := 10\<rparr>"

section \<open>Properties\<close>

lemmas sock_defs =
  bytesAvailable_def sock_peek_def sock_read_def sock_write_def sock_close_def closeSocket_def

lemma be16_append: "2 \<le> length xs \<Longrightarrow> be16 (xs @ ys) = be16 xs"
  by (induction xs rule: be16.induct) simp_all

lemma be32_append: "4 \<le> length xs \<Longrightarrow> be32 (xs @ ys) = be32 xs"
  by (induction xs rule: be32.induct) simp_all

lemma field16_append: "off + 2 \<le> length hdr \<Longrightarrow> field16 off (hdr @ rest) = field16 off hdr"
  by (simp add: field16_def be16_append)


subsection \<open>Version negotiation\<close>

text \<open>
  Claim C6. In the ProtocolVersion state, with exactly the 12-byte version line buffered,
  \<^verbatim>\<open>read()\<close> accepts \<^verbatim>\<open>RFB 003.008\n\<close> and \<^verbatim>\<open>RFB 003.889\n\<close>: it returns
  true, echoes the line and advances to security-type selection. It rejects
  \<^verbatim>\<open>RFB 002.000\n\<close> (major version not 3) and \<^verbatim>\<open>RFB 003.003\n\<close> (minor version
  below 7): it returns false, the transport is closed and the state stays where it was.
\<close>

theorem version_negotiation:
  "read des (mkEngine Protocol (ascii ''RFB 003.008'' @ [0x0A])) =
     (True, (mkEngine SecurityInit [])
              \<lparr>m_socket := (mkSocket [])\<lparr>outbuf := ascii ''RFB 003.008'' @ [0x0A]\<rparr>\<rparr>) \<and>
   read des (mkEngine Protocol (ascii ''RFB 003.889'' @ [0x0A])) =
     (True, (mkEngine SecurityInit [])
              \<lparr>m_socket := (mkSocket [])\<lparr>outbuf := ascii ''RFB 003.889'' @ [0x0A]\<rparr>\<rparr>) \<and>
   read des (mkEngine Protocol (ascii ''RFB 002.000'' @ [0x0A])) =
     (False, (mkEngine Protocol [])\<lparr>m_socket := (mkSocket [])\<lparr>closed := True\<rparr>\<rparr>) \<and>
   read des (mkEngine Protocol (ascii ''RFB 003.003'' @ [0x0A])) =
     (False, (mkEngine Protocol [])\<lparr>m_socket := (mkSocket [])\<lparr>closed := True\<rparr>\<rparr>)"
  by (simp add: read_def readProtocol_def sock_defs mkEngine_def mkSocket_def
        ascii_def versionMatch_def isDigit_def toInt_def)

subsection \<open>Security-type selection\<close>

lemma receiveSecurityTypes_full:
  assumes inb: "inbuf (m_socket s) = c # types @ rest"
      and len: "length types = unat c"
      and two: "types \<noteq> [] \<or> rest \<noteq> []"
  shows "receiveSecurityTypes s =
     (if rfbSecTypeVncAuth \<in> set types
      then (True, s\<lparr>m_socket := (m_socket s)\<lparr>inbuf := rest,
                       outbuf := outbuf (m_socket s) @ [rfbSecTypeVncAuth]\<rparr>,
                     m_state := SecurityChallenge\<rparr>)
      else if rfbSecTypeNone \<in> set types
      then (True, s\<lparr>m_socket := (m_socket s)\<lparr>inbuf := rest,
                       outbuf := outbuf (m_socket s) @ [rfbSecTypeNone]\<rparr>,
                     m_state := SecurityResult\<rparr>)
      else (False, s\<lparr>m_socket := (m_socket s)\<lparr>inbuf := rest, closed := True\<rparr>\<rparr>))"
proof -
  have avail: "bytesAvailable (m_socket s) \<ge> 2"
    using inb two by (cases types; cases rest) (simp_all add: bytesAvailable_def)
  have r1: "sock_read 1 (m_socket s) = ([c], (m_socket s)\<lparr>inbuf := types @ rest\<rparr>)"
    using inb by (simp add: sock_read_def)
  have r2: "sock_read (int (unat c)) ((m_socket s)\<lparr>inbuf := types @ rest\<rparr>)
              = (types, (m_socket s)\<lparr>inbuf := rest\<rparr>)"
    using len by (simp add: sock_read_def)
  show ?thesis
  proof (cases "unat c = 0")
    case True
    then have "types = []" using len by simp
    then show ?thesis
      using avail r1 True by (simp add: receiveSecurityTypes_def sock_close_def)
  next
    case False
    then show ?thesis
      using avail r1 r2 len
      by (simp add: receiveSecurityTypes_def sock_close_def sock_write_def)
  qed
qed

text \<open>
  Claim C7, as amended. In the SecurityTypeSelection state, with the count byte and the
  whole list of that many security types buffered: a list containing VNC-Auth (2) selects
  it and advances to SecurityChallenge, also when None is present; otherwise a list
  containing None (1) selects it and advances to SecurityResult; a list that is empty or
  holds only unsupported types is fatal and closes the transport, provided at least two
  bytes are buffered. When the count byte 0 is the only buffered byte, \<^verbatim>\<open>read()\<close>
  returns false and changes nothing.
\<close>

theorem security_type_selection:
  assumes st: "m_state s = SecurityInit"
      and inb: "inbuf (m_socket s) = c # types @ rest"
      and len: "length types = unat c"
  shows "(rfbSecTypeVncAuth \<in> set types \<longrightarrow>
            read des s =
              (True, s\<lparr>m_socket := (m_socket s)\<lparr>inbuf := rest,
                          outbuf := outbuf (m_socket s) @ [rfbSecTypeVncAuth]\<rparr>,
                        m_state := SecurityChallenge\<rparr>)) \<and>
         (rfbSecTypeVncAuth \<notin> set types \<and> rfbSecTypeNone \<in> set types \<longrightarrow>
            read des s =
              (True, s\<lparr>m_socket := (m_socket s)\<lparr>inbuf := rest,
                          outbuf := outbuf (m_socket s) @ [rfbSecTypeNone]\<rparr>,
                        m_state := SecurityResult\<rparr>)) \<and>
         (rfbSecTypeVncAuth \<notin> set types \<and> rfbSecTypeNone \<notin> set types \<and>
          (types \<noteq> [] \<or> rest \<noteq> []) \<longrightarrow>
            read des s =
              (False, s\<lparr>m_socket := (m_socket s)\<lparr>inbuf := rest, closed := True\<rparr>\<rparr>)) \<and>
         (types = [] \<and> rest = [] \<longrightarrow> read des s = (False, s))"
proof -
  have rd: "read des s = receiveSecurityTypes s"
    using st by (simp add: read_def)
  have a: "types \<noteq> [] \<or> rest \<noteq> [] \<Longrightarrow> ?thesis"
    using receiveSecurityTypes_full [OF inb len] rd by auto
  have b: "types = [] \<and> rest = [] \<Longrightarrow> ?thesis"
    using inb rd by (simp add: receiveSecurityTypes_def bytesAvailable_def)
  from a b show ?thesis by blast
qed

theorem security_type_selection_witness:
  "read xorCipher (mkEngine SecurityInit [2, 1, 2, 7]) =
     (True, (mkEngine SecurityChallenge [7])\<lparr>m_socket := (mkSocket [7])\<lparr>outbuf := [2]\<rparr>\<rparr>) \<and>
   read xorCipher (mkEngine SecurityInit [1, 1]) =
     (True, (mkEngine SecurityResult [])\<lparr>m_socket := (mkSocket [])\<lparr>outbuf := [1]\<rparr>\<rparr>) \<and>
   read xorCipher (mkEngine SecurityInit [1, 99]) =
     (False, (mkEngine SecurityInit [])\<lparr>m_socket := (mkSocket [])\<lparr>closed := True\<rparr>\<rparr>) \<and>
   read xorCipher (mkEngine SecurityInit [0, 0, 0, 0, 5]) =
     (False, (mkEngine SecurityInit [0, 0, 0, 5])
               \<lparr>m_socket := (mkSocket [0, 0, 0, 5])\<lparr>closed := True\<rparr>\<rparr>) \<and>
   read xorCipher (mkEngine SecurityInit [0]) = (False, mkEngine SecurityInit [0])"
  using security_type_selection [of "mkEngine SecurityInit [2, 1, 2, 7]" 2 "[1, 2]" "[7]" xorCipher]
        security_type_selection [of "mkEngine SecurityInit [1, 1]" 1 "[1]" "[]" xorCipher]
        security_type_selection [of "mkEngine SecurityInit [1, 99]" 1 "[99]" "[]" xorCipher]
        security_type_selection [of "mkEngine SecurityInit [0, 0, 0, 0, 5]" 0 "[]" "[0, 0, 0, 5]" xorCipher]
        security_type_selection [of "mkEngine SecurityInit [0]" 0 "[]" "[]" xorCipher]
  by (simp add: mkEngine_def mkSocket_def)

text \<open>
  The claim as stated fails when the transport holds nothing but the count byte 0: the
  empty list is then fully available, yet \<^verbatim>\<open>read()\<close> returns false without closing
  the transport.
\<close>

theorem empty_list_single_byte_counterexample:
  "fst (read xorCipher (mkEngine SecurityInit [0])) = False \<and>
   closed (m_socket (snd (read xorCipher (mkEngine SecurityInit [0])))) = False"
  by (simp add: read_def receiveSecurityTypes_def bytesAvailable_def mkEngine_def mkSocket_def)

subsection \<open>The server-init message\<close>

text \<open>
  Claim C8. In the FramebufferInit state, with the 24-byte fixed header buffered: a
  declared name length above 255 is fatal (the transport is closed, \<^verbatim>\<open>read()\<close>
  returns false, nothing is consumed); a declared name length of exactly 255 with all 255
  name bytes buffered is accepted: header and name are consumed, the pixel format and the
  geometry are taken from the header and the state becomes Running.
\<close>

theorem server_init_name_length:
  assumes st: "m_state s = FramebufferInit"
      and inb: "inbuf (m_socket s) = hdr @ rest"
      and len: "length hdr = sz_rfbServerInitMsg"
  shows "(field32 20 hdr > 255 \<longrightarrow>
            read des s = (False, s\<lparr>m_socket := (m_socket s)\<lparr>closed := True\<rparr>\<rparr>)) \<and>
         (field32 20 hdr = 255 \<and> length rest \<ge> 255 \<longrightarrow>
            read des s =
              (True, s\<lparr>m_socket := (m_socket s)\<lparr>inbuf := drop 255 rest\<rparr>,
                        m_serverInitMessage := hdr @ take 255 rest,
                        m_pixelFormat := take sz_rfbPixelFormat (drop 4 hdr),
                        m_framebufferWidth := field16 0 hdr,
                        m_framebufferHeight := field16 2 hdr,
                        m_state := Running\<rparr>))"
proof -
  have rd: "read des s = receiveServerInitMessage s"
    using st by (simp add: read_def)
  have pk: "sock_peek sz_rfbServerInitMsg (m_socket s) = hdr"
    using inb len by (simp add: sock_peek_def)
  have av: "bytesAvailable (m_socket s) = 24 + length rest"
    using inb len by (simp add: bytesAvailable_def)
  have big: "field32 20 hdr > 255 \<Longrightarrow>
      receiveServerInitMessage s = (False, s\<lparr>m_socket := (m_socket s)\<lparr>closed := True\<rparr>\<rparr>)"
    using pk av len by (simp add: receiveServerInitMessage_def closeSocket_def sock_close_def)
  have ok: "receiveServerInitMessage s =
              (True, s\<lparr>m_socket := (m_socket s)\<lparr>inbuf := drop 255 rest\<rparr>,
                        m_serverInitMessage := hdr @ take 255 rest,
                        m_pixelFormat := take sz_rfbPixelFormat (drop 4 hdr),
                        m_framebufferWidth := field16 0 hdr,
                        m_framebufferHeight := field16 2 hdr,
                        m_state := Running\<rparr>)"
    if nl: "field32 20 hdr = 255" and enough: "length rest \<ge> 255"
  proof -
    have p2: "length (sock_peek 255 (m_socket s)) = 255"
      using inb len enough by (simp add: sock_peek_def)
    have rdm: "sock_read 279 (m_socket s) =
                 (hdr @ take 255 rest, (m_socket s)\<lparr>inbuf := drop 255 rest\<rparr>)"
      using inb len by (simp add: sock_read_def)
    show ?thesis
      using pk av len nl p2 rdm
      by (simp add: receiveServerInitMessage_def field16_append)
  qed
  show ?thesis using rd big ok by simp
qed

theorem server_init_name_length_witness:
  "read xorCipher (mkEngine FramebufferInit (serverInitHeader 256)) =
     (False, (mkEngine FramebufferInit (serverInitHeader 256))
               \<lparr>m_socket := (mkSocket (serverInitHeader 256))\<lparr>closed := True\<rparr>\<rparr>) \<and>
   read xorCipher (mkEngine FramebufferInit (serverInitHeader 255 @ replicate 255 65 @ [2])) =
     (True, (mkEngine Running [2])
              \<lparr>m_serverInitMessage := serverInitHeader 255 @ replicate 255 65,
                m_pixelFormat := [32, 24, 0, 1, 0, 255, 0, 255, 0, 255, 16, 8, 0, 0, 0, 0],
                m_framebufferWidth := 1024, m_framebufferHeight := 768\<rparr>)"
  using server_init_name_length [of "mkEngine FramebufferInit (serverInitHeader 256)"
          "serverInitHeader 256" "[]" xorCipher]
        server_init_name_length
          [of "mkEngine FramebufferInit (serverInitHeader 255 @ replicate 255 65 @ [2])"
              "serverInitHeader 255" "replicate 255 65 @ [2]" xorCipher]
  by (simp add: mkEngine_def mkSocket_def serverInitHeader_def field32_def field16_def)

text \<open>
  Claim C10, as amended. In the FramebufferInit state, when the fixed 24-byte header is
  available, its declared name length is at most 255, and fewer bytes than the declared
  name length are buffered in all, the 24 header bytes counted among them,
  \<^verbatim>\<open>read()\<close> returns false and consumes nothing, yet the stored pixel format has been
  overwritten from the peeked header; the geometry, the connection state and everything
  else are unchanged. The count is over the whole buffer because the name is awaited by
  peeking that many bytes from the head of the stream, where the header still is: that
  peek is the one the theorem shows to fall short.
\<close>

theorem server_init_short_name:
  assumes st: "m_state s = FramebufferInit"
      and av: "sz_rfbServerInitMsg \<le> bytesAvailable (m_socket s)"
      and nl: "nameLength = field32 20 (sock_peek sz_rfbServerInitMsg (m_socket s))"
      and le: "nameLength \<le> 255"
      and short: "bytesAvailable (m_socket s) < nameLength"
  shows "read des s =
           (False, s\<lparr>m_pixelFormat :=
                       take sz_rfbPixelFormat (drop 4 (sock_peek sz_rfbServerInitMsg (m_socket s)))\<rparr>) \<and>
         length (sock_peek nameLength (m_socket s)) < nameLength"
proof -
  have rd: "read des s = receiveServerInitMessage s"
    using st by (simp add: read_def)
  have pk: "length (sock_peek sz_rfbServerInitMsg (m_socket s)) = sz_rfbServerInitMsg"
    using av by (simp add: sock_peek_def bytesAvailable_def)
  have p2: "length (sock_peek nameLength (m_socket s)) < nameLength"
    using short by (simp add: sock_peek_def bytesAvailable_def)
  have "receiveServerInitMessage s =
          (False, s\<lparr>m_pixelFormat :=
                      take sz_rfbPixelFormat (drop 4 (sock_peek sz_rfbServerInitMsg (m_socket s)))\<rparr>)"
    unfolding receiveServerInitMessage_def Let_def
    using av pk p2 le nl by simp
  then show ?thesis using rd p2 by simp
qed

theorem server_init_short_name_witness:
  "read xorCipher (mkEngine FramebufferInit (serverInitHeader 30 @ [65, 66])) =
     (False, (mkEngine FramebufferInit (serverInitHeader 30 @ [65, 66]))
               \<lparr>m_pixelFormat := [32, 24, 0, 1, 0, 255, 0, 255, 0, 255, 16, 8, 0, 0, 0, 0]\<rparr>) \<and>
   bytesAvailable (m_socket (mkEngine FramebufferInit (serverInitHeader 30 @ [65, 66]))) = 26 \<and>
   field32 20 (serverInitHeader 30) = 30"
  using server_init_short_name [of "mkEngine FramebufferInit (serverInitHeader 30 @ [65, 66])"
          30 xorCipher]
  by (simp add: mkEngine_def mkSocket_def serverInitHeader_def field32_def sock_peek_def
        bytesAvailable_def)

text \<open>
  The claim as stated fails for a declared name length above 255: the header is buffered
  and fewer bytes than the name length are peek-able, \<^verbatim>\<open>read()\<close> returns false, but
  the rejection happens before the copy and the stored pixel format keeps its old value.
\<close>

theorem oversized_name_keeps_pixel_format_counterexample:
  "m_state (mkEngine FramebufferInit (serverInitHeader 256)) = FramebufferInit \<and>
   sz_rfbServerInitMsg
     \<le> length (inbuf (m_socket (mkEngine FramebufferInit (serverInitHeader 256)))) \<and>
   length (sock_peek (field32 20 (serverInitHeader 256))
             (m_socket (mkEngine FramebufferInit (serverInitHeader 256))))
     < field32 20 (serverInitHeader 256) \<and>
   fst (read xorCipher (mkEngine FramebufferInit (serverInitHeader 256))) = False \<and>
   m_pixelFormat (snd (read xorCipher (mkEngine FramebufferInit (serverInitHeader 256))))
     = [0, 0, 0, 0, 0, 0, 0, 0, 0, 0, 0, 0, 0, 0, 0, 0] \<and>
   m_pixelFormat (snd (read xorCipher (mkEngine FramebufferInit (serverInitHeader 256))))
     \<noteq> take sz_rfbPixelFormat (drop 4 (serverInitHeader 256))"
  by (simp add: read_def receiveServerInitMessage_def sock_defs mkEngine_def mkSocket_def
        serverInitHeader_def field32_def)

subsection \<open>Authentication\<close>

lemma vncKey_paddedKey: "vncKey passwd = paddedKey passwd"
  by (auto simp: vncKey_def paddedKey_def list_eq_iff_nth_eq nth_append)

text \<open>
  Claim C5. For every password and every 16-byte challenge, the response written in the
  SecurityChallenge state is the challenge encrypted block by block (two blocks of 8
  bytes) by the supplied DES primitive, keyed with the password null-padded or truncated
  to exactly 8 bytes; the challenge is consumed and the state becomes SecurityResult. The
  primitive is assumed to return 8-byte blocks.
\<close>

theorem challenge_response:
  assumes des8: "\<forall>k b. length (des k b) = 8"
      and st: "m_state s = SecurityChallenge"
      and inb: "inbuf (m_socket s) = challenge @ rest"
      and len: "length challenge = CHALLENGESIZE"
  shows "read des s =
           (True, s\<lparr>m_socket := (m_socket s)
                      \<lparr>inbuf := rest,
                        outbuf := outbuf (m_socket s)
                                  @ des (paddedKey (m_vncPassword s)) (take 8 challenge)
                                  @ des (paddedKey (m_vncPassword s)) (drop 8 challenge)\<rparr>,
                     m_state := SecurityResult\<rparr>)"
proof -
  have rd: "read des s = receiveSecurityChallenge des s"
    using st by (simp add: read_def)
  have r: "sock_read (int CHALLENGESIZE) (m_socket s) =
             (challenge, (m_socket s)\<lparr>inbuf := rest\<rparr>)"
    using inb len by (simp add: sock_read_def)
  have av: "bytesAvailable (m_socket s) \<ge> CHALLENGESIZE"
    using inb len by (simp add: bytesAvailable_def)
  have enc: "vncEncryptBytes des challenge (m_vncPassword s) =
               des (paddedKey (m_vncPassword s)) (take 8 challenge)
               @ des (paddedKey (m_vncPassword s)) (drop 8 challenge)"
    using des8 len by (simp add: vncEncryptBytes_def store_def vncKey_paddedKey Let_def)
  show ?thesis
    using rd r av enc des8 by (simp add: receiveSecurityChallenge_def sock_write_def)
qed

theorem challenge_response_witness:
  "(\<forall>k b. length (xorCipher k b) = 8) \<and>
   read xorCipher
     ((mkEngine SecurityChallenge [1,2,3,4,5,6,7,8,9,10,11,12,13,14,15,16,0,0,0,0])
        \<lparr>m_vncPassword := ascii ''secret''\<rparr>) =
     (True, (mkEngine SecurityResult [0,0,0,0])
              \<lparr>m_socket := (mkSocket [0,0,0,0])
                  \<lparr>outbuf := xorCipher (paddedKey (ascii ''secret'')) [1,2,3,4,5,6,7,8]
                             @ xorCipher (paddedKey (ascii ''secret'')) [9,10,11,12,13,14,15,16]\<rparr>,
                m_vncPassword := ascii ''secret''\<rparr>)"
proof -
  have l: "\<forall>k b. length (xorCipher k b) = 8"
    by (auto simp: xorCipher_def)
  show ?thesis
    using l challenge_response [OF l,
        of "(mkEngine SecurityChallenge [1,2,3,4,5,6,7,8,9,10,11,12,13,14,15,16,0,0,0,0])
              \<lparr>m_vncPassword := ascii ''secret''\<rparr>"
           "[1,2,3,4,5,6,7,8,9,10,11,12,13,14,15,16]" "[0,0,0,0]"]
    by (simp add: mkEngine_def mkSocket_def)
qed

subsection \<open>Hextile tiles\<close>

lemma tileExtent_le: "tileExtent limit pos \<le> 16"
  by (simp add: tileExtent_def)

lemma bitsPerPixel_less: "bitsPerPixel pf < 256"
proof (cases pf)
  case Nil
  then show ?thesis by (simp add: bitsPerPixel_def)
next
  case (Cons b bs)
  have "unat b < 2 ^ LENGTH(8)" by (rule unsigned_less)
  then show ?thesis using Cons by (simp add: bitsPerPixel_def)
qed

lemma to_int_small: "n < 2 ^ 31 \<Longrightarrow> to_int n = int n"
  by (simp add: to_int_def u32_def)

lemma buffer_read_exact:
  assumes "drop (buf_pos b) (buf_data b) = bs @ rest"
  shows "buffer_read (int (length bs)) b = (bs, b\<lparr>buf_pos := buf_pos b + length bs\<rparr>)"
  using assms by (simp add: buffer_read_def)

declare hextileRow.simps [simp del] hextileRows.simps [simp del]

lemma rawPayload_pair [simp]:
  "rawPayload bytesPerPixel (w, h) payload = (length payload = w * h * bytesPerPixel)"
  by (simp add: rawPayload_def)

lemma tileExtent_min: "tileExtent limit pos = min 16 (limit - pos)"
  by (simp add: tileExtent_def min_def)

lemma hextileTile_raw:
  assumes w16: "w \<le> 16" and h16: "h \<le> 16" and b31: "bytesPerPixel \<le> 31"
      and data: "drop (buf_pos b) (buf_data b) = rawTile payload @ rest"
      and len: "length payload = w * h * bytesPerPixel"
  shows "hextileTile w h bytesPerPixel b =
           (True, b\<lparr>buf_pos := buf_pos b + length (rawTile payload)\<rparr>)"
proof -
  have "w * h \<le> 16 * 16"
    using w16 h16 by (rule mult_le_mono)
  then have "w * h * bytesPerPixel \<le> 16 * 16 * 31"
    using b31 by (rule mult_le_mono)
  then have small: "w * h * bytesPerPixel < 2 ^ 31"
    by simp
  have r1: "buffer_read 1 b = ([rfbHextileRaw], b\<lparr>buf_pos := buf_pos b + 1\<rparr>)"
    using buffer_read_exact [of b "[rfbHextileRaw]" "payload @ rest"] data
    by (simp add: rawTile_def)
  have "drop (buf_pos b + 1) (buf_data b) = drop 1 (drop (buf_pos b) (buf_data b))"
    by (simp add: add.commute)
  then have d2: "drop (buf_pos (b\<lparr>buf_pos := buf_pos b + 1\<rparr>))
                   (buf_data (b\<lparr>buf_pos := buf_pos b + 1\<rparr>)) = payload @ rest"
    using data by (simp add: rawTile_def)
  have r2: "buffer_read (int (w * h * bytesPerPixel)) (b\<lparr>buf_pos := buf_pos b + 1\<rparr>)
              = (payload, b\<lparr>buf_pos := buf_pos b + 1 + w * h * bytesPerPixel\<rparr>)"
    using buffer_read_exact [OF d2] len by simp
  show ?thesis
    using r1 r2 len
    by (simp add: hextileTile_def read_int_ok_def to_int_small [OF small] rawTile_def)
qed

lemma hextileRow_raw:
  assumes b31: "bytesPerPixel \<le> 31"
  shows "n = (xlimit - x + 15) div 16 \<Longrightarrow>
         list_all2 (rawPayload bytesPerPixel)
           (map (\<lambda>x'. (min 16 (xlimit - x'), min 16 (ylimit - y)))
              (map (\<lambda>i. x + 16 * i) [0..<n])) ps \<Longrightarrow>
         drop (buf_pos b) (buf_data b) = concat (map rawTile ps) @ rest \<Longrightarrow>
         hextileRow xlimit ylimit bytesPerPixel y x b =
           (True, b\<lparr>buf_pos := buf_pos b + length (concat (map rawTile ps))\<rparr>)"
proof (induction n arbitrary: x ps b)
  case 0
  then have "\<not> x < xlimit" by simp
  moreover have "ps = []" using 0 by simp
  ultimately show ?case by (simp add: hextileRow.simps)
next
  case (Suc n)
  have lt: "x < xlimit" using Suc.prems(1) by (cases "x < xlimit") simp_all
  have nn: "n = (xlimit - (x + 16) + 15) div 16" using Suc.prems(1) lt by simp
  have mp: "map (\<lambda>i. x + 16 * i) [0..<Suc n] = x # map (\<lambda>i. (x + 16) + 16 * i) [0..<n]"
    by (simp add: map_upt_Suc del: upt_Suc)
  obtain p ps' where ps: "ps = p # ps'"
    and lp: "length p = min 16 (xlimit - x) * min 16 (ylimit - y) * bytesPerPixel"
    and rest': "list_all2 (rawPayload bytesPerPixel)
           (map (\<lambda>x'. (min 16 (xlimit - x'), min 16 (ylimit - y)))
              (map (\<lambda>i. (x + 16) + 16 * i) [0..<n])) ps'"
    using Suc.prems(2) unfolding mp by (auto simp: list_all2_Cons1)
  have d: "drop (buf_pos b) (buf_data b) = rawTile p @ (concat (map rawTile ps') @ rest)"
    using Suc.prems(3) ps by simp
  have t: "hextileTile (tileExtent xlimit x) (tileExtent ylimit y) bytesPerPixel b =
             (True, b\<lparr>buf_pos := buf_pos b + length (rawTile p)\<rparr>)"
    by (rule hextileTile_raw [OF tileExtent_le tileExtent_le b31 d])
       (simp add: lp tileExtent_min)
  have "drop (buf_pos b + length (rawTile p)) (buf_data b)
          = drop (length (rawTile p)) (drop (buf_pos b) (buf_data b))"
    by (simp add: add.commute)
  then have d': "drop (buf_pos (b\<lparr>buf_pos := buf_pos b + length (rawTile p)\<rparr>))
                  (buf_data (b\<lparr>buf_pos := buf_pos b + length (rawTile p)\<rparr>))
                 = concat (map rawTile ps') @ rest"
    using d by simp
  have IH: "hextileRow xlimit ylimit bytesPerPixel y (x + 16)
              (b\<lparr>buf_pos := buf_pos b + length (rawTile p)\<rparr>) =
            (True, b\<lparr>buf_pos := buf_pos b + length (rawTile p)
                                  + length (concat (map rawTile ps'))\<rparr>)"
    using Suc.IH [OF nn rest' d'] by simp
  show ?case
    using lt t IH ps by (simp add: hextileRow.simps [of xlimit ylimit bytesPerPixel y x b] add.assoc)
qed

lemma hextileRows_raw:
  assumes b31: "bytesPerPixel \<le> 31"
  shows "m = (ylimit - y + 15) div 16 \<Longrightarrow>
         list_all2 (rawPayload bytesPerPixel)
           (concat (map (\<lambda>y'. map (\<lambda>x'. (min 16 (xlimit - x'), min 16 (ylimit - y')))
                                (map (\<lambda>i. x0 + 16 * i) [0..<(xlimit - x0 + 15) div 16]))
                      (map (\<lambda>j. y + 16 * j) [0..<m]))) ps \<Longrightarrow>
         drop (buf_pos b) (buf_data b) = concat (map rawTile ps) @ rest \<Longrightarrow>
         hextileRows x0 xlimit ylimit bytesPerPixel y b =
           (True, b\<lparr>buf_pos := buf_pos b + length (concat (map rawTile ps))\<rparr>)"
proof (induction m arbitrary: y ps b)
  case 0
  then have "\<not> y < ylimit" by simp
  moreover have "ps = []" using 0 by simp
  ultimately show ?case by (simp add: hextileRows.simps)
next
  case (Suc m)
  have lt: "y < ylimit" using Suc.prems(1) by (cases "y < ylimit") simp_all
  have mm: "m = (ylimit - (y + 16) + 15) div 16" using Suc.prems(1) lt by simp
  have mp: "map (\<lambda>j. y + 16 * j) [0..<Suc m] = y # map (\<lambda>j. (y + 16) + 16 * j) [0..<m]"
    by (simp add: map_upt_Suc del: upt_Suc)
  obtain ps1 ps2 where ps: "ps = ps1 @ ps2"
    and row: "list_all2 (rawPayload bytesPerPixel)
                (map (\<lambda>x'. (min 16 (xlimit - x'), min 16 (ylimit - y)))
                   (map (\<lambda>i. x0 + 16 * i) [0..<(xlimit - x0 + 15) div 16])) ps1"
    and rows: "list_all2 (rawPayload bytesPerPixel)
           (concat (map (\<lambda>y'. map (\<lambda>x'. (min 16 (xlimit - x'), min 16 (ylimit - y')))
                                (map (\<lambda>i. x0 + 16 * i) [0..<(xlimit - x0 + 15) div 16]))
                      (map (\<lambda>j. (y + 16) + 16 * j) [0..<m]))) ps2"
    using Suc.prems(2) unfolding mp by (auto simp: list_all2_append1)
  have d: "drop (buf_pos b) (buf_data b) = concat (map rawTile ps1) @ (concat (map rawTile ps2) @ rest)"
    using Suc.prems(3) ps by simp
  have r: "hextileRow xlimit ylimit bytesPerPixel y x0 b =
             (True, b\<lparr>buf_pos := buf_pos b + length (concat (map rawTile ps1))\<rparr>)"
    by (rule hextileRow_raw [OF b31 refl row d])
  have "drop (buf_pos b + length (concat (map rawTile ps1))) (buf_data b)
          = drop (length (concat (map rawTile ps1))) (drop (buf_pos b) (buf_data b))"
    by (simp add: add.commute)
  then have d': "drop (buf_pos (b\<lparr>buf_pos := buf_pos b + length (concat (map rawTile ps1))\<rparr>))
                  (buf_data (b\<lparr>buf_pos := buf_pos b + length (concat (map rawTile ps1))\<rparr>))
                 = concat (map rawTile ps2) @ rest"
    using d by simp
  have IH: "hextileRows x0 xlimit ylimit bytesPerPixel (y + 16)
              (b\<lparr>buf_pos := buf_pos b + length (concat (map rawTile ps1))\<rparr>) =
            (True, b\<lparr>buf_pos := buf_pos b + length (concat (map rawTile ps1))
                                  + length (concat (map rawTile ps2))\<rparr>)"
    using Suc.IH [OF mm rows d'] by simp
  show ?case
    using lt r IH ps
    by (simp add: hextileRows.simps [of x0 xlimit ylimit bytesPerPixel y b] add.assoc)
qed


lemma tileOrigins_sum:
  "n = (len + 15) div 16 \<Longrightarrow>
   sum_list (map (\<lambda>x'. min 16 (origin + len - x')) (map (\<lambda>i. origin + 16 * i) [0..<n])) = len"
proof (induction n arbitrary: origin len)
  case 0
  then show ?case by simp
next
  case (Suc n)
  have pos: "0 < len" using Suc.prems by (cases "len = 0") simp_all
  have nn: "n = (len - 16 + 15) div 16" using Suc.prems pos by simp
  have mp: "map (\<lambda>i. origin + 16 * i) [0..<Suc n]
              = origin # map (\<lambda>i. (origin + 16) + 16 * i) [0..<n]"
    by (simp add: map_upt_Suc del: upt_Suc)
  show ?case
  proof (cases "len < 16")
    case True
    then have "n = 0" using nn by simp
    then show ?thesis unfolding mp using True by simp
  next
    case False
    then have e: "origin + len = (origin + 16) + (len - 16)" by simp
    have "sum_list (map (\<lambda>x'. min 16 (origin + len - x'))
                     (map (\<lambda>i. (origin + 16) + 16 * i) [0..<n])) = len - 16"
      unfolding e by (rule Suc.IH [OF nn])
    then show ?thesis unfolding mp using False by simp
  qed
qed

lemma rawTiles_length:
  "list_all2 (rawPayload bytesPerPixel) tiles ps \<Longrightarrow>
   length (concat (map rawTile ps)) =
     length tiles + sum_list (map (\<lambda>wh. fst wh * snd wh) tiles) * bytesPerPixel"
  by (induction tiles ps rule: list_all2_induct)
     (simp_all add: rawTile_def rawPayload_def add_mult_distrib)

lemma sum_list_map_concat:
  "sum_list (map f (concat xss)) = sum_list (map (\<lambda>xs. sum_list (map f xs)) xss)"
  for f :: "'a \<Rightarrow> nat"
  by (induction xss) simp_all

lemma rectTiles_area:
  "sum_list (map (\<lambda>wh. fst wh * snd wh) (rectTiles hdr)) = r_w hdr * r_h hdr"
proof -
  have inner: "sum_list (map (\<lambda>x. fst (tileSize hdr y x) * snd (tileSize hdr y x))
                          (tileOrigins (r_x hdr) (r_w hdr)))
                 = r_w hdr * min 16 (r_y hdr + r_h hdr - y)" for y
  proof -
    have "sum_list (map (\<lambda>x. fst (tileSize hdr y x) * snd (tileSize hdr y x))
                          (tileOrigins (r_x hdr) (r_w hdr)))
          = sum_list (map (\<lambda>x'. min 16 (r_x hdr + r_w hdr - x'))
                        (tileOrigins (r_x hdr) (r_w hdr))) * min 16 (r_y hdr + r_h hdr - y)"
      by (simp add: tileSize_def sum_list_mult_const)
    then show ?thesis
      using tileOrigins_sum [OF refl, of "r_x hdr" "r_w hdr"] by (simp add: tileOrigins_def)
  qed
  have "sum_list (map (\<lambda>wh. fst wh * snd wh) (rectTiles hdr))
          = sum_list (map (\<lambda>y. r_w hdr * min 16 (r_y hdr + r_h hdr - y))
                        (tileOrigins (r_y hdr) (r_h hdr)))"
    by (simp add: rectTiles_def sum_list_map_concat comp_def inner)
  also have "\<dots> = r_w hdr * sum_list (map (\<lambda>y. min 16 (r_y hdr + r_h hdr - y))
                        (tileOrigins (r_y hdr) (r_h hdr)))"
    by (simp add: sum_list_const_mult)
  finally show ?thesis
    using tileOrigins_sum [OF refl, of "r_y hdr" "r_h hdr"] by (simp add: tileOrigins_def)
qed

text \<open>
  Claim C9. For a tile of a Hextile rectangle whose sub-encoding byte has only the raw
  bit set, the decoder reads that byte and then exactly \<open>w * h * bytesPerPixel\<close> payload
  bytes, where \<open>w\<close> and \<open>h\<close> are the tile's dimensions clipped to the rectangle (at
  most 16 each), and nothing else: the inner loop of \<^verbatim>\<open>handleRectEncodingHextile\<close>
  goes on with the next tile of the row at the byte that follows this payload, so no
  background, foreground or subrectangle field is read for the tile. Consequently, on a
  rectangle all of whose tiles are such raw tiles, \<^verbatim>\<open>handleRectEncodingHextile\<close>
  returns true having consumed exactly the tiles, one flag byte for each tile and
  \<open>bytesPerPixel\<close> bytes for every pixel of the rectangle.
\<close>

theorem hextile_raw_tile:
  assumes bpp: "bytesPerPixel = bitsPerPixel pf div 8"
  shows "(x < xlimit \<and> w = min 16 (xlimit - x) \<and> h = min 16 (ylimit - y) \<and>
          drop (buf_pos b) (buf_data b) = rawTile payload @ rest \<and>
          length payload = w * h * bytesPerPixel \<longrightarrow>
            hextileTile (tileExtent xlimit x) (tileExtent ylimit y) bytesPerPixel b =
              (True, b\<lparr>buf_pos := buf_pos b + 1 + w * h * bytesPerPixel\<rparr>) \<and>
            hextileRow xlimit ylimit bytesPerPixel y x b =
              hextileRow xlimit ylimit bytesPerPixel y (x + 16)
                (b\<lparr>buf_pos := buf_pos b + 1 + w * h * bytesPerPixel\<rparr>) \<and>
            w \<le> 16 \<and> h \<le> 16) \<and>
         (list_all2 (rawPayload bytesPerPixel) (rectTiles hdr) payloads \<and>
          drop (buf_pos c) (buf_data c) = concat (map rawTile payloads) @ rest' \<longrightarrow>
            handleRectEncodingHextile hdr bytesPerPixel c =
              (True, c\<lparr>buf_pos := buf_pos c + length (concat (map rawTile payloads))\<rparr>) \<and>
            length (concat (map rawTile payloads)) =
              length (rectTiles hdr) + r_w hdr * r_h hdr * bytesPerPixel)"
proof -
  have b31: "bytesPerPixel \<le> 31"
    using bpp bitsPerPixel_less [of pf] by simp
  have tile: "hextileTile (tileExtent xlimit x) (tileExtent ylimit y) bytesPerPixel b =
                (True, b\<lparr>buf_pos := buf_pos b + 1 + w * h * bytesPerPixel\<rparr>) \<and>
              hextileRow xlimit ylimit bytesPerPixel y x b =
                hextileRow xlimit ylimit bytesPerPixel y (x + 16)
                  (b\<lparr>buf_pos := buf_pos b + 1 + w * h * bytesPerPixel\<rparr>) \<and>
              w \<le> 16 \<and> h \<le> 16"
    if lt: "x < xlimit" and w: "w = min 16 (xlimit - x)" and h: "h = min 16 (ylimit - y)"
      and data: "drop (buf_pos b) (buf_data b) = rawTile payload @ rest"
      and len: "length payload = w * h * bytesPerPixel"
  proof -
    have t: "hextileTile (tileExtent xlimit x) (tileExtent ylimit y) bytesPerPixel b =
               (True, b\<lparr>buf_pos := buf_pos b + length (rawTile payload)\<rparr>)"
      by (rule hextileTile_raw [OF tileExtent_le tileExtent_le b31 data])
         (simp add: len w h tileExtent_min)
    have l: "length (rawTile payload) = 1 + w * h * bytesPerPixel"
      using len by (simp add: rawTile_def)
    show ?thesis
      using lt t l w h
      by (simp add: hextileRow.simps [of xlimit ylimit bytesPerPixel y x b] add.assoc)
  qed
  have rect: "handleRectEncodingHextile hdr bytesPerPixel c =
                (True, c\<lparr>buf_pos := buf_pos c + length (concat (map rawTile payloads))\<rparr>) \<and>
              length (concat (map rawTile payloads)) =
                length (rectTiles hdr) + r_w hdr * r_h hdr * bytesPerPixel"
    if tiles: "list_all2 (rawPayload bytesPerPixel) (rectTiles hdr) payloads"
      and data: "drop (buf_pos c) (buf_data c) = concat (map rawTile payloads) @ rest'"
  proof -
    have tl: "list_all2 (rawPayload bytesPerPixel)
           (concat (map (\<lambda>y'. map (\<lambda>x'. (min 16 (r_x hdr + r_w hdr - x'),
                                          min 16 (r_y hdr + r_h hdr - y')))
                                (map (\<lambda>i. r_x hdr + 16 * i)
                                   [0..<(r_x hdr + r_w hdr - r_x hdr + 15) div 16]))
                      (map (\<lambda>j. r_y hdr + 16 * j)
                         [0..<(r_y hdr + r_h hdr - r_y hdr + 15) div 16]))) payloads"
      using tiles by (simp add: rectTiles_def tileOrigins_def tileSize_def [abs_def] comp_def)
    have "hextileRows (r_x hdr) (r_x hdr + r_w hdr) (r_y hdr + r_h hdr) bytesPerPixel
            (r_y hdr) c =
          (True, c\<lparr>buf_pos := buf_pos c + length (concat (map rawTile payloads))\<rparr>)"
      by (rule hextileRows_raw [OF b31 refl tl data])
    then show ?thesis
      using rawTiles_length [OF tiles] by (simp add: handleRectEncodingHextile_def rectTiles_area)
  qed
  show ?thesis using tile rect by blast
qed

theorem hextile_raw_tile_witness:
  "rectTiles \<lparr>r_x = 3, r_y = 5, r_w = 17, r_h = 2, encoding = rfbEncodingHextile\<rparr>
     = [(16, 2), (1, 2)] \<and>
   hextileTile (tileExtent 20 3) (tileExtent 7 5) 1
     \<lparr>buf_data = 9 # rawTile (replicate 32 7) @ rawTile [8, 9] @ [7], buf_pos = 1\<rparr> =
     (True, \<lparr>buf_data = 9 # rawTile (replicate 32 7) @ rawTile [8, 9] @ [7], buf_pos = 34\<rparr>) \<and>
   hextileRow 20 7 1 5 3
     \<lparr>buf_data = 9 # rawTile (replicate 32 7) @ rawTile [8, 9] @ [7], buf_pos = 1\<rparr> =
   hextileRow 20 7 1 5 19
     \<lparr>buf_data = 9 # rawTile (replicate 32 7) @ rawTile [8, 9] @ [7], buf_pos = 34\<rparr> \<and>
   handleRectEncodingHextile
     \<lparr>r_x = 3, r_y = 5, r_w = 17, r_h = 2, encoding = rfbEncodingHextile\<rparr> 1
     \<lparr>buf_data = 9 # rawTile (replicate 32 7) @ rawTile [8, 9] @ [7], buf_pos = 1\<rparr> =
     (True, \<lparr>buf_data = 9 # rawTile (replicate 32 7) @ rawTile [8, 9] @ [7], buf_pos = 37\<rparr>)"
proof -
  let ?hdr = "\<lparr>r_x = 3, r_y = 5, r_w = 17, r_h = 2, encoding = rfbEncodingHextile\<rparr>"
  let ?b = "\<lparr>buf_data = 9 # rawTile (replicate 32 7) @ rawTile [8, 9] @ [7], buf_pos = 1\<rparr>"
  have bpp: "(1::nat) = bitsPerPixel [8] div 8"
    by (simp add: bitsPerPixel_def)
  have tiles: "rectTiles ?hdr = [(16, 2), (1, 2)]"
    by (simp add: rectTiles_def tileOrigins_def tileSize_def numeral_2_eq_2)
  have pl: "list_all2 (rawPayload 1) (rectTiles ?hdr) [replicate 32 7, [8, 9]]"
    unfolding tiles by simp
  have d1: "drop (buf_pos ?b) (buf_data ?b) = rawTile (replicate 32 7) @ (rawTile [8, 9] @ [7])"
    by simp
  have d2: "drop (buf_pos ?b) (buf_data ?b) = concat (map rawTile [replicate 32 7, [8, 9]]) @ [7]"
    by simp
  have l1: "length (replicate 32 (7::byte)) = 16 * 2 * 1"
    by simp
  note t = hextile_raw_tile [OF bpp, where x = 3 and xlimit = 20 and y = 5 and ylimit = 7
      and w = 16 and h = 2 and b = ?b and payload = "replicate 32 7"
      and rest = "rawTile [8, 9] @ [7]" and hdr = ?hdr
      and payloads = "[replicate 32 7, [8, 9]]" and c = ?b and rest' = "[7]"]
  show ?thesis
    using t tiles pl d1 d2 l1 by (simp add: rawTile_def)
qed

subsection \<open>A step that returns false\<close>

lemma readMessage_False:
  "readMessage n s = (False, s') \<Longrightarrow> s' = s"
  by (auto simp: readMessage_def sock_read_def bytesAvailable_def split: if_splits)

lemma handleRect_snd:
  "snd (handleRect s b hdr) = s \<or> snd (handleRect s b hdr) = closeSocket s"
  unfolding handleRect_def Let_def by simp

lemma closeSocket_idem: "closeSocket (closeSocket s) = closeSocket s"
  by (simp add: closeSocket_def sock_close_def)

lemma rectBody_state:
  assumes "rectBody s b reg = (st, s', b', reg')"
  shows "s' = s \<or> s' = closeSocket s"
proof -
  obtain hb b1 where r: "buffer_read (int sz_rfbFramebufferUpdateRectHeader) b = (hb, b1)"
    by (cases "buffer_read (int sz_rfbFramebufferUpdateRectHeader) b")
  obtain ok b2 s2 where h: "handleRect s b1 (parseRectHeader hb) = ((ok, b2), s2)"
    by (metis surj_pair)
  have "s2 = s \<or> s2 = closeSocket s"
    using handleRect_snd [of s b1 "parseRectHeader hb"] h by simp
  then show ?thesis
    using assms r h by (auto simp: rectBody_def Let_def split: if_splits)
qed

lemma rectLoop_state:
  "rectLoop n s b reg = (ok, s', b', reg') \<Longrightarrow> s' = s \<or> s' = closeSocket s"
proof (induction n arbitrary: s b reg)
  case 0
  then show ?case by simp
next
  case (Suc n)
  obtain st s1 b1 r1 where rb: "rectBody s b reg = (st, s1, b1, r1)"
    by (metis surj_pair)
  have s1: "s1 = s \<or> s1 = closeSocket s"
    using rectBody_state [OF rb] .
  show ?case
  proof (cases st)
    case ReturnFalse
    then show ?thesis using Suc.prems rb s1 by auto
  next
    case BreakLoop
    then show ?thesis using Suc.prems rb s1 by auto
  next
    case NextRect
    then have "rectLoop n s1 b1 r1 = (ok, s', b', reg')"
      using Suc.prems rb by simp
    then have "s' = s1 \<or> s' = closeSocket s1"
      by (rule Suc.IH)
    then show ?thesis using s1 closeSocket_idem by auto
  qed
qed







subsection \<open>Steps when further bytes have already arrived\<close>

lemma u32_less: "u32 n < 4294967296"
  by (simp add: u32_def)

lemma buffer_read_ext:
  assumes "buffer_read n b = (bs, b')" and "int (length bs) = n"
  shows "buffer_read n (ext b e) = (bs, ext b' e)"
proof -
  have n0: "0 \<le> n" using assms(2) by simp
  have bs: "bs = take (nat n) (drop (buf_pos b) (buf_data b))"
    and b': "b' = b\<lparr>buf_pos := buf_pos b + length bs\<rparr>"
    using assms(1) n0 by (auto simp: buffer_read_def Let_def)
  have "nat n \<le> length (drop (buf_pos b) (buf_data b))"
    using assms(2) bs by simp
  then have "take (nat n) (drop (buf_pos b) (buf_data b @ e)) = bs"
    using bs by simp
  then show ?thesis
    using n0 b' by (simp add: buffer_read_def ext_def Let_def)
qed

lemma read_int_ok_ext:
  assumes "read_int_ok n b = (True, b')"
  shows "read_int_ok n (ext b e) = (True, ext b' e)"
proof -
  obtain bs b1 where r: "buffer_read n b = (bs, b1)" by (metis surj_pair)
  then have "int (length bs) = n" and "b1 = b'"
    using assms by (simp_all add: read_int_ok_def)
  then show ?thesis
    using buffer_read_ext [OF r, of e] by (simp add: read_int_ok_def)
qed

lemma read_uint_ok_ext:
  assumes "read_uint_ok n b = (True, b')"
  shows "read_uint_ok n (ext b e) = (True, ext b' e)"
proof -
  obtain bs b1 where r: "buffer_read (int (u32 n)) b = (bs, b1)" by (metis surj_pair)
  then have l: "int (length bs) = to_int n" and b1: "b1 = b'"
    using assms by (simp_all add: read_uint_ok_def)
  have "to_int n = int (u32 n)"
    using l u32_less [of n] by (auto simp: to_int_def split: if_splits)
  then have "int (length bs) = int (u32 n)" using l by simp
  then show ?thesis
    using buffer_read_ext [OF r, of e] l b1 by (simp add: read_uint_ok_def)
qed

lemma read_header32_ext:
  assumes "read_header32 b = (Some v, b')"
  shows "read_header32 (ext b e) = (Some v, ext b' e)"
proof -
  obtain bs b1 where r: "buffer_read 4 b = (bs, b1)" by (metis surj_pair)
  then have "int (length bs) = 4" and "b1 = b'" and "v = be32 bs"
    using assms by (auto simp: read_header32_def split: if_splits)
  then show ?thesis
    using buffer_read_ext [OF r, of e] by (simp add: read_header32_def)
qed

lemma andAlso_ext:
  assumes f: "\<And>b b'. f b = (True, b') \<Longrightarrow> f (ext b e) = (True, ext b' e)"
      and g: "\<And>b b'. g b = (True, b') \<Longrightarrow> g (ext b e) = (True, ext b' e)"
      and a: "andAlso f g b = (True, b')"
  shows "andAlso f g (ext b e) = (True, ext b' e)"
proof -
  obtain ok b1 where fb: "f b = (ok, b1)" by (metis surj_pair)
  with a have ok: "ok" and gb: "g b1 = (True, b')"
    by (auto simp: andAlso_def split: bool.splits)
  show ?thesis
    using f [of b b1] g [OF gb] fb ok by (simp add: andAlso_def)
qed

lemma handleRectEncodingRRE_ext:
  assumes "handleRectEncodingRRE bpp b = (True, b')"
  shows "handleRectEncodingRRE bpp (ext b e) = (True, ext b' e)"
proof -
  obtain v b1 where r: "read_header32 b = (v, b1)" by (metis surj_pair)
  show ?thesis
  proof (cases v)
    case None
    then show ?thesis using assms r by (simp add: handleRectEncodingRRE_def)
  next
    case (Some n)
    then show ?thesis
      using assms r read_header32_ext [of b n b1 e]
      by (simp add: handleRectEncodingRRE_def Let_def read_int_ok_ext)
  qed
qed

lemma handleRectEncodingCoRRE_ext:
  assumes "handleRectEncodingCoRRE bpp b = (True, b')"
  shows "handleRectEncodingCoRRE bpp (ext b e) = (True, ext b' e)"
proof -
  obtain v b1 where r: "read_header32 b = (v, b1)" by (metis surj_pair)
  show ?thesis
  proof (cases v)
    case None
    then show ?thesis using assms r by (simp add: handleRectEncodingCoRRE_def)
  next
    case (Some n)
    then show ?thesis
      using assms r read_header32_ext [of b n b1 e]
      by (simp add: handleRectEncodingCoRRE_def Let_def read_int_ok_ext)
  qed
qed

lemma handleRectEncodingZlib_ext:
  assumes "handleRectEncodingZlib b = (True, b')"
  shows "handleRectEncodingZlib (ext b e) = (True, ext b' e)"
proof -
  obtain v b1 where r: "read_header32 b = (v, b1)" by (metis surj_pair)
  show ?thesis
  proof (cases v)
    case None
    then show ?thesis using assms r by (simp add: handleRectEncodingZlib_def)
  next
    case (Some n)
    then show ?thesis
      using assms r read_header32_ext [of b n b1 e]
      by (simp add: handleRectEncodingZlib_def read_uint_ok_ext)
  qed
qed

lemma handleRectEncodingZRLE_ext:
  assumes "handleRectEncodingZRLE b = (True, b')"
  shows "handleRectEncodingZRLE (ext b e) = (True, ext b' e)"
  using assms handleRectEncodingZlib_ext
  by (simp add: handleRectEncodingZRLE_def handleRectEncodingZlib_def)

lemma buffer_read_ext':
  "int (length (fst (buffer_read n b))) = n \<Longrightarrow>
   buffer_read n (ext b e) = (fst (buffer_read n b), ext (snd (buffer_read n b)) e)"
  using buffer_read_ext [of n b "fst (buffer_read n b)" "snd (buffer_read n b)" e] by simp

lemma read_int_ok_ext':
  "fst (read_int_ok n b) \<Longrightarrow> read_int_ok n (ext b e) = (True, ext (snd (read_int_ok n b)) e)"
  using read_int_ok_ext [of n b "snd (read_int_ok n b)" e] by (cases "read_int_ok n b") simp

lemma read_uint_ok_ext':
  "fst (read_uint_ok n b) \<Longrightarrow> read_uint_ok n (ext b e) = (True, ext (snd (read_uint_ok n b)) e)"
  using read_uint_ok_ext [of n b "snd (read_uint_ok n b)" e] by (cases "read_uint_ok n b") simp

lemma hextileTile_ext:
  assumes a: "hextileTile w h bpp b = (True, b')"
  shows "hextileTile w h bpp (ext b e) = (True, ext b' e)"
proof -
  obtain bs b1 where r1: "buffer_read 1 b = (bs, b1)" by (metis surj_pair)
  obtain se where bs: "bs = [se]"
    using a r1 by (auto simp: hextileTile_def split: list.splits)
  have r1e: "buffer_read 1 (ext b e) = ([se], ext b1 e)"
    using buffer_read_ext [OF r1, of e] bs by simp
  show ?thesis
    using a unfolding hextileTile_def r1 r1e bs
    by (auto simp: read_int_ok_ext' read_uint_ok_ext' buffer_read_ext' Let_def
          split: if_splits prod.splits bool.splits list.splits)
qed

lemma hextileRow_ext:
  "hextileRow xlimit ylimit bpp y x b = (True, b') \<Longrightarrow>
   hextileRow xlimit ylimit bpp y x (ext b e) = (True, ext b' e)"
proof (induction xlimit ylimit bpp y x b rule: hextileRow.induct)
  case (1 xlimit ylimit bpp y x b)
  show ?case
  proof (cases "x < xlimit")
    case False
    then show ?thesis
      using "1.prems" by (simp add: hextileRow.simps [of xlimit ylimit bpp y x])
  next
    case True
    obtain ok b1 where t: "hextileTile (tileExtent xlimit x) (tileExtent ylimit y) bpp b = (ok, b1)"
      by (metis surj_pair)
    have ok: ok and rest: "hextileRow xlimit ylimit bpp y (x + 16) b1 = (True, b')"
      using "1.prems" True t
      by (auto simp: hextileRow.simps [of xlimit ylimit bpp y x b] split: bool.splits)
    have te: "hextileTile (tileExtent xlimit x) (tileExtent ylimit y) bpp (ext b e) = (True, ext b1 e)"
      using t ok hextileTile_ext by simp
    have "hextileRow xlimit ylimit bpp y (x + 16) (ext b1 e) = (True, ext b' e)"
      using "1.IH" [OF True _ _ rest] t ok by simp
    then show ?thesis
      using True te by (simp add: hextileRow.simps [of xlimit ylimit bpp y x "ext b e"])
  qed
qed

lemma hextileRows_ext:
  "hextileRows x0 xlimit ylimit bpp y b = (True, b') \<Longrightarrow>
   hextileRows x0 xlimit ylimit bpp y (ext b e) = (True, ext b' e)"
proof (induction x0 xlimit ylimit bpp y b rule: hextileRows.induct)
  case (1 x0 xlimit ylimit bpp y b)
  show ?case
  proof (cases "y < ylimit")
    case False
    then show ?thesis
      using "1.prems" by (simp add: hextileRows.simps [of x0 xlimit ylimit bpp y])
  next
    case True
    obtain ok b1 where t: "hextileRow xlimit ylimit bpp y x0 b = (ok, b1)"
      by (metis surj_pair)
    have ok: ok and rest: "hextileRows x0 xlimit ylimit bpp (y + 16) b1 = (True, b')"
      using "1.prems" True t
      by (auto simp: hextileRows.simps [of x0 xlimit ylimit bpp y b] split: bool.splits)
    have te: "hextileRow xlimit ylimit bpp y x0 (ext b e) = (True, ext b1 e)"
      using t ok hextileRow_ext by simp
    have "hextileRows x0 xlimit ylimit bpp (y + 16) (ext b1 e) = (True, ext b' e)"
      using "1.IH" [OF True _ _ rest] t ok by simp
    then show ?thesis
      using True te by (simp add: hextileRows.simps [of x0 xlimit ylimit bpp y "ext b e"])
  qed
qed

lemma handleRect_True_state_fun:
  "fst (fst (handleRect s b hdr)) \<longrightarrow> snd (handleRect s b hdr) = s"
  unfolding handleRect_def Let_def by simp

lemma handleRect_True_state:
  "handleRect s b hdr = ((True, b'), s') \<Longrightarrow> s' = s"
  using handleRect_True_state_fun [of s b hdr] by simp

lemma handleRect_state_indep:
  "snd (handleRect s b hdr) = snd (handleRect s b2 hdr)"
  unfolding handleRect_def Let_def by simp

lemma andAlso_int_uint_ext:
  "andAlso (read_int_ok n) (read_uint_ok m) b = (True, b') \<Longrightarrow>
   andAlso (read_int_ok n) (read_uint_ok m) (ext b e) = (True, ext b' e)"
  by (rule andAlso_ext [where f = "read_int_ok n" and g = "read_uint_ok m"])
     (simp_all add: read_int_ok_ext read_uint_ok_ext)

lemma andAlso_uint_uint_ext:
  "andAlso (read_uint_ok n) (read_uint_ok m) b = (True, b') \<Longrightarrow>
   andAlso (read_uint_ok n) (read_uint_ok m) (ext b e) = (True, ext b' e)"
  by (rule andAlso_ext [where f = "read_uint_ok n" and g = "read_uint_ok m"])
     (simp_all add: read_uint_ok_ext)

lemma ext_fun:
  assumes "\<And>b'. f b = (True, b') \<Longrightarrow> f (ext b e) = (True, ext b' e)"
  shows "fst (f b) \<longrightarrow> f (ext b e) = (True, ext (snd (f b)) e)"
  using assms by (cases "f b") auto

lemma handleRect_ext_fun:
  "fst (fst (handleRect s b hdr)) \<longrightarrow>
   handleRect s (ext b e) hdr = ((True, ext (snd (fst (handleRect s b hdr))) e), snd (handleRect s b hdr))"
  unfolding handleRect_def Let_def handleRectEncodingHextile_def
  using ext_fun [of "read_int_ok (int sz_rfbSupportedMessages)" b e, OF read_int_ok_ext]
    ext_fun [of "read_int_ok (int sz_rfbCopyRect)" b e, OF read_int_ok_ext]
    ext_fun [of "read_uint_ok (r_w hdr)" b e, OF read_uint_ok_ext]
    ext_fun [of "read_uint_ok (r_w hdr * r_h hdr * (bitsPerPixel (m_pixelFormat s) div 8))" b e,
      OF read_uint_ok_ext]
    ext_fun [of "andAlso (read_int_ok (int sz_rfbXCursorColors))
                   (read_uint_ok (2 * ((r_w hdr + 7) div 8) * r_h hdr))" b e,
      OF andAlso_int_uint_ext]
    ext_fun [of "andAlso (read_uint_ok (r_w hdr * r_h hdr * (bitsPerPixel (m_pixelFormat s) div 8)))
                   (read_uint_ok ((r_w hdr + 7) div 8 * r_h hdr))" b e,
      OF andAlso_uint_uint_ext]
    ext_fun [of "handleRectEncodingRRE (bitsPerPixel (m_pixelFormat s) div 8)" b e,
      OF handleRectEncodingRRE_ext]
    ext_fun [of "handleRectEncodingCoRRE (bitsPerPixel (m_pixelFormat s) div 8)" b e,
      OF handleRectEncodingCoRRE_ext]
    ext_fun [of "handleRectEncodingZlib" b e, OF handleRectEncodingZlib_ext]
    ext_fun [of "handleRectEncodingZRLE" b e, OF handleRectEncodingZRLE_ext]
    ext_fun [of "hextileRows (r_x hdr) (r_x hdr + r_w hdr) (r_y hdr + r_h hdr)
                   (bitsPerPixel (m_pixelFormat s) div 8) (r_y hdr)" b e, OF hextileRows_ext]
  by simp

lemma handleRect_ext:
  assumes "handleRect s b hdr = ((True, b'), s')"
  shows "handleRect s (ext b e) hdr = ((True, ext b' e), s')"
  using assms handleRect_ext_fun [of s b hdr e] by simp

lemma handleRect_arrive:
  "handleRect (arrive e s) b hdr = (fst (handleRect s b hdr), arrive e (snd (handleRect s b hdr)))"
  unfolding handleRect_def Let_def
  by (simp add: arrive_def closeSocket_def sock_close_def)

lemma rectBody_arrive:
  assumes "rectBody s b reg = (st, s', b', reg')"
  shows "rectBody (arrive e s) b reg = (st, arrive e s', b', reg')"
proof -
  obtain hb b1 where r: "buffer_read (int sz_rfbFramebufferUpdateRectHeader) b = (hb, b1)"
    by (metis surj_pair)
  obtain ok b2 s2 where h: "handleRect s b1 (parseRectHeader hb) = ((ok, b2), s2)"
    by (metis surj_pair)
  have he: "handleRect (arrive e s) b1 (parseRectHeader hb) = ((ok, b2), arrive e s2)"
    using h by (simp add: handleRect_arrive)
  have g: "m_framebufferWidth (arrive e s2) = m_framebufferWidth s2"
    "m_framebufferHeight (arrive e s2) = m_framebufferHeight s2"
    by (simp_all add: arrive_def)
  show ?thesis
    using assms r h he g by (auto simp: rectBody_def Let_def split: if_splits)
qed

lemma rectLoop_arrive:
  "rectLoop n s b reg = (ok, s', b', reg') \<Longrightarrow>
   rectLoop n (arrive e s) b reg = (ok, arrive e s', b', reg')"
proof (induction n arbitrary: s b reg)
  case 0
  then show ?case by simp
next
  case (Suc n)
  obtain st s1 b1 r1 where rb: "rectBody s b reg = (st, s1, b1, r1)"
    by (metis surj_pair)
  note rbe = rectBody_arrive [OF rb, of e]
  show ?case
  proof (cases st)
    case NextRect
    then have "rectLoop n s1 b1 r1 = (ok, s', b', reg')"
      using Suc.prems rb by simp
    then have "rectLoop n (arrive e s1) b1 r1 = (ok, arrive e s', b', reg')"
      by (rule Suc.IH)
    then show ?thesis using rbe NextRect by simp
  qed (use Suc.prems rb rbe in auto)
qed

lemma rectBody_ext:
  assumes "rectBody s b reg = (st, s', b', reg')" and "st \<noteq> ReturnFalse"
  shows "rectBody s (ext b e) reg = (st, s', ext b' e, reg')"
proof -
  obtain hb b1 where r: "buffer_read (int sz_rfbFramebufferUpdateRectHeader) b = (hb, b1)"
    by (metis surj_pair)
  have l: "length hb = sz_rfbFramebufferUpdateRectHeader"
    using assms r by (auto simp: rectBody_def split: if_splits)
  have re: "buffer_read (int sz_rfbFramebufferUpdateRectHeader) (ext b e) = (hb, ext b1 e)"
    using buffer_read_ext [OF r, of e] l by simp
  obtain ok b2 s2 where h: "handleRect s b1 (parseRectHeader hb) = ((ok, b2), s2)"
    by (metis surj_pair)
  show ?thesis
  proof (cases "encoding (parseRectHeader hb) = rfbEncodingLastRect")
    case True
    then show ?thesis
      using assms r re l by (simp add: rectBody_def Let_def)
  next
    case False
    then have ok: ok
      using assms r h l by (auto simp: rectBody_def Let_def split: if_splits)
    have he: "handleRect s (ext b1 e) (parseRectHeader hb) = ((True, ext b2 e), s2)"
      using handleRect_ext [of s b1 "parseRectHeader hb" b2 s2 e] h ok by simp
    show ?thesis
      using assms(1) False ok r re h he l
      by (auto simp: rectBody_def Let_def split: if_splits)
  qed
qed

lemma rectLoop_ext:
  "rectLoop n s b reg = (True, s', b', reg') \<Longrightarrow>
   rectLoop n s (ext b e) reg = (True, s', ext b' e, reg')"
proof (induction n arbitrary: s b reg)
  case 0
  then show ?case by simp
next
  case (Suc n)
  obtain st s1 b1 r1 where rb: "rectBody s b reg = (st, s1, b1, r1)"
    by (metis surj_pair)
  show ?case
  proof (cases st)
    case ReturnFalse
    then show ?thesis using Suc.prems rb by simp
  next
    case BreakLoop
    then show ?thesis
      using Suc.prems rb rectBody_ext [OF rb, of e] by simp
  next
    case NextRect
    then have "rectLoop n s1 b1 r1 = (True, s', b', reg')"
      using Suc.prems rb by simp
    then have "rectLoop n s1 (ext b1 e) r1 = (True, s', ext b' e, reg')"
      by (rule Suc.IH)
    then show ?thesis
      using rectBody_ext [OF rb, of e] NextRect by simp
  qed
qed

lemma rectBody_True_state:
  assumes "rectBody s b reg = (st, s', b', reg')" and "st \<noteq> ReturnFalse"
  shows "s' = s"
proof -
  obtain hb b1 where r: "buffer_read (int sz_rfbFramebufferUpdateRectHeader) b = (hb, b1)"
    by (metis surj_pair)
  obtain ok b2 s2 where h: "handleRect s b1 (parseRectHeader hb) = ((ok, b2), s2)"
    by (metis surj_pair)
  have "ok \<Longrightarrow> s2 = s"
    using h handleRect_True_state [of s b1 "parseRectHeader hb" b2 s2] by simp
  then show ?thesis
    using assms r h by (auto simp: rectBody_def Let_def split: if_splits)
qed

lemma rectLoop_True_state:
  "rectLoop n s b reg = (True, s', b', reg') \<Longrightarrow> s' = s"
proof (induction n arbitrary: s b reg)
  case 0
  then show ?case by simp
next
  case (Suc n)
  obtain st s1 b1 r1 where rb: "rectBody s b reg = (st, s1, b1, r1)"
    by (metis surj_pair)
  show ?case
  proof (cases st)
    case ReturnFalse
    then show ?thesis using Suc.prems rb by simp
  next
    case BreakLoop
    then show ?thesis using Suc.prems rb rectBody_True_state [OF rb] by simp
  next
    case NextRect
    then have "rectLoop n s1 b1 r1 = (True, s', b', reg')"
      using Suc.prems rb by simp
    then have "s' = s1" by (rule Suc.IH)
    then show ?thesis using rectBody_True_state [OF rb] NextRect by simp
  qed
qed

lemma readMessage_True:
  assumes "readMessage n s = (True, s')"
  shows "0 \<le> n \<and> nat n \<le> length (inbuf (m_socket s)) \<and>
         s' = s\<lparr>m_socket := (m_socket s)\<lparr>inbuf := drop (nat n) (inbuf (m_socket s))\<rparr>,
                m_lastMessage := take (nat n) (inbuf (m_socket s))\<rparr>"
  using assms
  by (auto simp: readMessage_def sock_read_def bytesAvailable_def split: if_splits)

lemma readMessage_arrive:
  assumes "readMessage n s = (True, s')"
  shows "readMessage n (arrive e s) = (True, arrive e s')"
  using readMessage_True [OF assms]
  by (auto simp: readMessage_def sock_read_def bytesAvailable_def arrive_def)

lemma inbuf_arrive [simp]: "inbuf (m_socket (arrive e s)) = inbuf (m_socket s) @ e"
  by (simp add: arrive_def)

lemma arrive_lastUpdatedRect:
  "arrive e (s\<lparr>m_lastUpdatedRect := r\<rparr>) = (arrive e s)\<lparr>m_lastUpdatedRect := r\<rparr>"
  by (simp add: arrive_def)

lemma buf_pos_ext [simp]: "buf_pos (ext b e) = buf_pos b"
  by (simp add: ext_def)

lemma receiveFramebufferUpdateMessage_cases:
  assumes "receiveFramebufferUpdateMessage s = (True, s')"
  obtains message b1 b2 reg where
    "buffer_read (int sz_rfbFramebufferUpdateMsg) \<lparr>buf_data = inbuf (m_socket s), buf_pos = 0\<rparr>
       = (message, b1)"
    "length message = sz_rfbFramebufferUpdateMsg"
    "rectLoop (field16 2 message) s b1 [] = (True, s, b2, reg)"
    "readMessage (to_int (buf_pos b2)) (s\<lparr>m_lastUpdatedRect := boundingRect reg\<rparr>) = (True, s')"
proof -
  let ?b0 = "\<lparr>buf_data = inbuf (m_socket s), buf_pos = 0\<rparr>"
  obtain message b1 where r: "buffer_read (int sz_rfbFramebufferUpdateMsg) ?b0 = (message, b1)"
    by (metis surj_pair)
  obtain ok s1 b2 reg where l: "rectLoop (field16 2 message) s b1 [] = (ok, s1, b2, reg)"
    by (metis surj_pair)
  have len: "length message = sz_rfbFramebufferUpdateMsg"
    using assms r
    by (auto simp: receiveFramebufferUpdateMessage_def sock_peek_def bytesAvailable_def Let_def
        split: if_splits)
  have ok: ok
    using assms r l len
    by (cases ok)
       (auto simp: receiveFramebufferUpdateMessage_def sock_peek_def bytesAvailable_def Let_def)
  have s1: "s1 = s"
    using l ok rectLoop_True_state [of "field16 2 message" s b1 "[]" s1 b2 reg] by simp
  have "readMessage (to_int (buf_pos b2)) (s\<lparr>m_lastUpdatedRect := boundingRect reg\<rparr>) = (True, s')"
    using assms r l len ok s1
    by (simp add: receiveFramebufferUpdateMessage_def sock_peek_def bytesAvailable_def Let_def)
  moreover have "rectLoop (field16 2 message) s b1 [] = (True, s, b2, reg)"
    using l ok s1 by simp
  ultimately show ?thesis
    using that [OF r len] by blast
qed

lemma receiveFramebufferUpdateMessage_arrive:
  assumes "receiveFramebufferUpdateMessage s = (True, s')"
  shows "receiveFramebufferUpdateMessage (arrive e s) = (True, arrive e s')"
proof -
  let ?b0 = "\<lparr>buf_data = inbuf (m_socket s), buf_pos = 0\<rparr>"
  from assms obtain message b1 b2 reg where
    r: "buffer_read (int sz_rfbFramebufferUpdateMsg) ?b0 = (message, b1)" and
    len: "length message = sz_rfbFramebufferUpdateMsg" and
    l: "rectLoop (field16 2 message) s b1 [] = (True, s, b2, reg)" and
    m: "readMessage (to_int (buf_pos b2)) (s\<lparr>m_lastUpdatedRect := boundingRect reg\<rparr>) = (True, s')"
    by (rule receiveFramebufferUpdateMessage_cases)
  have b0e: "\<lparr>buf_data = inbuf (m_socket s) @ e, buf_pos = 0\<rparr> = ext ?b0 e"
    by (simp add: ext_def)
  have re: "buffer_read (int sz_rfbFramebufferUpdateMsg) (ext ?b0 e) = (message, ext b1 e)"
    using buffer_read_ext [OF r, of e] len by simp
  have le: "rectLoop (field16 2 message) (arrive e s) (ext b1 e) [] = (True, arrive e s, ext b2 e, reg)"
    using rectLoop_arrive [OF rectLoop_ext [OF l]] .
  have me: "readMessage (to_int (buf_pos b2)) ((arrive e s)\<lparr>m_lastUpdatedRect := boundingRect reg\<rparr>)
              = (True, arrive e s')"
    using readMessage_arrive [OF m, of e] by (simp add: arrive_lastUpdatedRect)
  show ?thesis
    using re le me len
    by (simp add: receiveFramebufferUpdateMessage_def sock_peek_def bytesAvailable_def Let_def b0e)
qed

lemma take_peek_arrive:
  "length (sock_peek n (m_socket s)) = n \<Longrightarrow>
   sock_peek n (m_socket (arrive e s)) = sock_peek n (m_socket s)"
  by (simp add: sock_peek_def)

lemma receiveColourMapEntriesMessage_arrive:
  assumes "receiveColourMapEntriesMessage s = (True, s')"
  shows "receiveColourMapEntriesMessage (arrive e s) = (True, arrive e s')"
proof -
  have l: "length (sock_peek sz_rfbSetColourMapEntriesMsg (m_socket s)) = sz_rfbSetColourMapEntriesMsg"
    using assms by (auto simp: receiveColourMapEntriesMessage_def Let_def split: if_splits)
  show ?thesis
    using assms l take_peek_arrive [OF l, of e]
    by (simp add: receiveColourMapEntriesMessage_def Let_def readMessage_arrive)
qed

lemma receiveCutTextMessage_arrive:
  assumes "receiveCutTextMessage s = (True, s')"
  shows "receiveCutTextMessage (arrive e s) = (True, arrive e s')"
proof -
  have l: "length (sock_peek sz_rfbServerCutTextMsg (m_socket s)) = sz_rfbServerCutTextMsg"
    using assms by (auto simp: receiveCutTextMessage_def Let_def split: if_splits)
  show ?thesis
    using assms l take_peek_arrive [OF l, of e]
    by (simp add: receiveCutTextMessage_def Let_def readMessage_arrive)
qed

lemma receiveResizeFramebufferMessage_arrive:
  assumes "receiveResizeFramebufferMessage s = (True, s')"
  shows "receiveResizeFramebufferMessage (arrive e s) = (True, arrive e s')"
proof -
  obtain ok s1 where r: "readMessage (int sz_rfbResizeFrameBufferMsg) s = (ok, s1)"
    by (metis surj_pair)
  have ok: ok using assms r by (auto simp: receiveResizeFramebufferMessage_def split: bool.splits)
  have "readMessage (int sz_rfbResizeFrameBufferMsg) (arrive e s) = (True, arrive e s1)"
    using r ok readMessage_arrive by simp
  then show ?thesis
    using assms r ok by (auto simp: receiveResizeFramebufferMessage_def arrive_def)
qed

lemma receiveMessage_arrive:
  assumes t: "receiveMessage mx s = (True, s')"
      and mx: "length (inbuf (m_socket s)) + length e \<le> mx"
  shows "receiveMessage mx (arrive e s) = (True, arrive e s')"
proof -
  have small: "\<not> bytesAvailable (m_socket s) > mx" "\<not> bytesAvailable (m_socket (arrive e s)) > mx"
    using mx by (simp_all add: bytesAvailable_def)
  obtain ty where p: "sock_peek 1 (m_socket s) = [ty]"
    using t small by (auto simp: receiveMessage_def split: list.splits)
  have pe: "sock_peek 1 (m_socket (arrive e s)) = [ty]"
    using take_peek_arrive [of 1 s e] p by simp
  show ?thesis
    using t small p pe
    by (auto simp: receiveMessage_def receiveFramebufferUpdateMessage_arrive
          receiveColourMapEntriesMessage_arrive receiveCutTextMessage_arrive
          receiveResizeFramebufferMessage_arrive receiveBellMessage_def receiveXvpMessage_def
          readMessage_arrive
        split: if_splits)
qed

lemma advances_refl [simp]: "advances b b"
  by (simp add: advances_def)

lemma advances_trans: "advances a b \<Longrightarrow> advances b c \<Longrightarrow> advances a c"
  by (simp add: advances_def)

lemma buffer_read_adv: "advances b (snd (buffer_read n b))"
  by (auto simp: advances_def buffer_read_def Let_def)

lemma read_int_ok_adv: "advances b (snd (read_int_ok n b))"
  using buffer_read_adv [of b n] by (cases "buffer_read n b") (simp add: read_int_ok_def)

lemma read_uint_ok_adv: "advances b (snd (read_uint_ok n b))"
  using buffer_read_adv [of b "int (u32 n)"] by (cases "buffer_read (int (u32 n)) b") (simp add: read_uint_ok_def)

lemma read_header32_adv: "advances b (snd (read_header32 b))"
  using buffer_read_adv [of b 4] by (cases "buffer_read 4 b") (simp add: read_header32_def)

lemma andAlso_adv:
  assumes "\<And>b. advances b (snd (f b))" and "\<And>b. advances b (snd (g b))"
  shows "advances b (snd (andAlso f g b))"
proof (cases "f b")
  case (Pair ok b1)
  have 1: "advances b b1" using assms(1) [of b] Pair by simp
  show ?thesis
  proof (cases ok)
    case True
    then show ?thesis
      using Pair 1 assms(2) [of b1] by (auto simp: andAlso_def intro: advances_trans)
  next
    case False
    then show ?thesis using Pair 1 by (simp add: andAlso_def)
  qed
qed

lemma header_then_adv:
  assumes "\<And>v b. advances b (snd (g v b))"
  shows "advances b (snd (case read_header32 b of (None, b1) \<Rightarrow> (False, b1) | (Some v, b1) \<Rightarrow> g v b1))"
proof (cases "read_header32 b")
  case (Pair v b1)
  have 1: "advances b b1" using read_header32_adv [of b] Pair by simp
  show ?thesis
    using Pair 1 assms by (cases v) (auto intro: advances_trans)
qed

lemma handleRectEncodingRRE_adv: "advances b (snd (handleRectEncodingRRE bpp b))"
  unfolding handleRectEncodingRRE_def Let_def
  by (rule header_then_adv) (rule read_int_ok_adv)

lemma handleRectEncodingCoRRE_adv: "advances b (snd (handleRectEncodingCoRRE bpp b))"
  unfolding handleRectEncodingCoRRE_def Let_def
  by (rule header_then_adv) (rule read_int_ok_adv)

lemma handleRectEncodingZlib_adv: "advances b (snd (handleRectEncodingZlib b))"
  unfolding handleRectEncodingZlib_def
  by (rule header_then_adv) (rule read_uint_ok_adv)

lemma handleRectEncodingZRLE_adv: "advances b (snd (handleRectEncodingZRLE b))"
  unfolding handleRectEncodingZRLE_def
  by (rule header_then_adv) (rule read_uint_ok_adv)

lemma hextileTile_adv: "advances b (snd (hextileTile w h bpp b))"
proof -
  obtain bs b1 where r1: "buffer_read 1 b = (bs, b1)" by (metis surj_pair)
  have 1: "advances b b1" using buffer_read_adv [of b 1] r1 by simp
  have ri: "\<And>n. advances b (snd (read_int_ok n b1))"
    using 1 read_int_ok_adv advances_trans by blast
  have a2: "\<And>b2. advances b1 b2 \<Longrightarrow> advances b b2"
    using 1 advances_trans by blast
  show ?thesis
  proof (cases bs)
    case Nil
    then show ?thesis using r1 1 by (simp add: hextileTile_def)
  next
    case (Cons se t)
    show ?thesis
    proof (cases t)
      case (Cons u v)
      then show ?thesis using r1 1 \<open>bs = se # t\<close> by (simp add: hextileTile_def)
    next
      case Nil
      then have bs: "bs = [se]" using Cons by simp
      define bg where "bg = (if se AND rfbHextileBackgroundSpecified \<noteq> 0
                   then read_uint_ok bpp b1 else (True, b1))"
      have abg: "advances b (snd bg)"
        using a2 read_uint_ok_adv [of b1 bpp] 1 by (simp add: bg_def)
      define fg where "fg = (if se AND rfbHextileForegroundSpecified \<noteq> 0
                   then read_uint_ok bpp (snd bg) else (True, snd bg))"
      have afg: "advances b (snd fg)"
        using abg read_uint_ok_adv [of "snd bg" bpp] advances_trans by (auto simp: fg_def)
      obtain ns b4 where r4: "buffer_read 1 (snd fg) = (ns, b4)" by (metis surj_pair)
      have a4: "advances b b4"
        using afg buffer_read_adv [of "snd fg" 1] r4 advances_trans by fastforce
      have a5: "\<And>n. advances b (snd (read_int_ok n b4))"
        using a4 read_int_ok_adv advances_trans by blast
      show ?thesis
        using r1 bs ri abg afg r4 a4 a5
        apply (simp add: hextileTile_def)
        apply (cases bg; cases fg)
        apply (auto simp: bg_def fg_def Let_def split: bool.splits list.splits if_splits)
        done
    qed
  qed
qed

lemma hextileRow_adv: "advances b (snd (hextileRow xlimit ylimit bpp y x b))"
proof (induction xlimit ylimit bpp y x b rule: hextileRow.induct)
  case (1 xlimit ylimit bpp y x b)
  show ?case
  proof (cases "x < xlimit")
    case False
    then show ?thesis by (simp add: hextileRow.simps [of xlimit ylimit bpp y x])
  next
    case True
    obtain ok b1 where t: "hextileTile (tileExtent xlimit x) (tileExtent ylimit y) bpp b = (ok, b1)"
      by (metis surj_pair)
    have a1: "advances b b1"
      using hextileTile_adv [of b "tileExtent xlimit x" "tileExtent ylimit y" bpp] t by simp
    show ?thesis
    proof (cases ok)
      case False
      then show ?thesis
        using True t a1 by (simp add: hextileRow.simps [of xlimit ylimit bpp y x b])
    next
      case ok: True
      have "advances b1 (snd (hextileRow xlimit ylimit bpp y (x + 16) b1))"
        using "1.IH" [OF True _ _] t ok by simp
      then show ?thesis
        using True t ok a1
        by (auto simp: hextileRow.simps [of xlimit ylimit bpp y x b] intro: advances_trans)
    qed
  qed
qed

lemma hextileRows_adv: "advances b (snd (hextileRows x0 xlimit ylimit bpp y b))"
proof (induction x0 xlimit ylimit bpp y b rule: hextileRows.induct)
  case (1 x0 xlimit ylimit bpp y b)
  show ?case
  proof (cases "y < ylimit")
    case False
    then show ?thesis by (simp add: hextileRows.simps [of x0 xlimit ylimit bpp y])
  next
    case True
    obtain ok b1 where t: "hextileRow xlimit ylimit bpp y x0 b = (ok, b1)"
      by (metis surj_pair)
    have a1: "advances b b1"
      using hextileRow_adv [of b xlimit ylimit bpp y x0] t by simp
    show ?thesis
    proof (cases ok)
      case False
      then show ?thesis
        using True t a1 by (simp add: hextileRows.simps [of x0 xlimit ylimit bpp y b])
    next
      case ok: True
      have "advances b1 (snd (hextileRows x0 xlimit ylimit bpp (y + 16) b1))"
        using "1.IH" [OF True _ _] t ok by simp
      then show ?thesis
        using True t ok a1
        by (auto simp: hextileRows.simps [of x0 xlimit ylimit bpp y b] intro: advances_trans)
    qed
  qed
qed

lemma handleRect_adv: "advances b (snd (fst (handleRect s b hdr)))"
  unfolding handleRect_def Let_def handleRectEncodingHextile_def
  by (simp add: read_int_ok_adv read_uint_ok_adv handleRectEncodingRRE_adv
        handleRectEncodingCoRRE_adv handleRectEncodingZlib_adv handleRectEncodingZRLE_adv
        hextileRows_adv andAlso_adv)

lemma rectBody_adv:
  assumes "rectBody s b reg = (st, s', b', reg')"
  shows "advances b b'"
proof -
  obtain hb b1 where r: "buffer_read (int sz_rfbFramebufferUpdateRectHeader) b = (hb, b1)"
    by (metis surj_pair)
  have a1: "advances b b1"
    using buffer_read_adv [of b "int sz_rfbFramebufferUpdateRectHeader"] r by simp
  obtain ok b2 s2 where h: "handleRect s b1 (parseRectHeader hb) = ((ok, b2), s2)"
    by (metis surj_pair)
  have "advances b1 b2"
    using handleRect_adv [of b1 s "parseRectHeader hb"] h by simp
  then have a2: "advances b b2"
    using a1 advances_trans by blast
  show ?thesis
    using assms r h a1 a2 by (auto simp: rectBody_def Let_def split: if_splits)
qed

lemma rectLoop_adv:
  "rectLoop n s b reg = (ok, s', b', reg') \<Longrightarrow> advances b b'"
proof (induction n arbitrary: s b reg)
  case 0
  then show ?case by simp
next
  case (Suc n)
  obtain st s1 b1 r1 where rb: "rectBody s b reg = (st, s1, b1, r1)"
    by (metis surj_pair)
  have a1: "advances b b1" using rectBody_adv [OF rb] .
  show ?case
  proof (cases st)
    case NextRect
    then have "rectLoop n s1 b1 r1 = (ok, s', b', reg')"
      using Suc.prems rb by simp
    then have "advances b1 b'" by (rule Suc.IH)
    then show ?thesis using a1 advances_trans by blast
  qed (use Suc.prems rb a1 in auto)
qed

lemma rectBody_close_ext:
  assumes rb: "rectBody s b reg = (ReturnFalse, s', b', reg')"
      and c: "closed (m_socket s')" and o: "\<not> closed (m_socket s)"
  shows "\<exists>b''. rectBody s (ext b e) reg = (ReturnFalse, s', b'', reg')"
proof -
  obtain hb b1 where r: "buffer_read (int sz_rfbFramebufferUpdateRectHeader) b = (hb, b1)"
    by (metis surj_pair)
  obtain ok b2 s2 where h: "handleRect s b1 (parseRectHeader hb) = ((ok, b2), s2)"
    by (metis surj_pair)
  have l: "length hb = sz_rfbFramebufferUpdateRectHeader"
    using rb r c o by (auto simp: rectBody_def split: if_splits)
  have re: "buffer_read (int sz_rfbFramebufferUpdateRectHeader) (ext b e) = (hb, ext b1 e)"
    using buffer_read_ext [OF r, of e] l by simp
  have ne: "encoding (parseRectHeader hb) \<noteq> rfbEncodingLastRect"
    using rb r l by (auto simp: rectBody_def Let_def)
  have s2: "s2 = s'" and nok: "\<not> ok" and reg: "reg' = reg"
    using rb r l ne h by (auto simp: rectBody_def Let_def split: if_splits)
  have ns: "snd (handleRect s (ext b1 e) (parseRectHeader hb)) = s'"
    using handleRect_state_indep [of s "ext b1 e" "parseRectHeader hb" b1] h s2 by simp
  then have "snd (handleRect s (ext b1 e) (parseRectHeader hb)) \<noteq> s"
    using c o by auto
  then have "\<not> fst (fst (handleRect s (ext b1 e) (parseRectHeader hb)))"
    using handleRect_True_state_fun [of s "ext b1 e" "parseRectHeader hb"] by blast
  then show ?thesis
    using re l ne ns reg
    by (cases "handleRect s (ext b1 e) (parseRectHeader hb)")
       (auto simp: rectBody_def Let_def)
qed

lemma rectLoop_close_ext:
  "rectLoop n s b reg = (False, s', b', reg') \<Longrightarrow> closed (m_socket s') \<Longrightarrow>
   \<not> closed (m_socket s) \<Longrightarrow>
   \<exists>b'' reg''. rectLoop n s (ext b e) reg = (False, s', b'', reg'')"
proof (induction n arbitrary: s b reg)
  case 0
  then show ?case by simp
next
  case (Suc n)
  obtain st s1 b1 r1 where rb: "rectBody s b reg = (st, s1, b1, r1)"
    by (metis surj_pair)
  show ?case
  proof (cases st)
    case ReturnFalse
    then have "s1 = s'" using Suc.prems(1) rb by simp
    then show ?thesis
      using rectBody_close_ext [of s b reg s1 b1 r1 e] rb ReturnFalse Suc.prems by auto
  next
    case BreakLoop
    then show ?thesis using Suc.prems rb by simp
  next
    case NextRect
    then have l: "rectLoop n s1 b1 r1 = (False, s', b', reg')"
      using Suc.prems rb by simp
    have s1: "s1 = s" using rectBody_True_state [OF rb] NextRect by simp
    have "\<exists>b'' reg''. rectLoop n s1 (ext b1 e) r1 = (False, s', b'', reg'')"
      using Suc.IH [OF l Suc.prems(2)] Suc.prems(3) s1 by simp
    then show ?thesis
      using rectBody_ext [OF rb, of e] NextRect by simp
  qed
qed

lemma readMessage_enough:
  assumes "0 \<le> n" and "nat n \<le> length (inbuf (m_socket s))"
  shows "fst (readMessage n s)"
  using assms by (auto simp: readMessage_def sock_read_def bytesAvailable_def)
lemma receiveFramebufferUpdateMessage_quiet:
  assumes f: "receiveFramebufferUpdateMessage s = (False, s')"
      and o: "\<not> closed (m_socket s')"
      and small: "length (inbuf (m_socket s)) < 2 ^ 31"
  shows "s' = s"
proof -
  let ?b0 = "\<lparr>buf_data = inbuf (m_socket s), buf_pos = 0\<rparr>"
  obtain message b1 where r: "buffer_read (int sz_rfbFramebufferUpdateMsg) ?b0 = (message, b1)"
    by (metis surj_pair)
  obtain ok s1 b2 reg where l: "rectLoop (field16 2 message) s b1 [] = (ok, s1, b2, reg)"
    by (metis surj_pair)
  have s1: "s1 = s \<or> s1 = closeSocket s"
    using rectLoop_state [OF l] .
  have "advances ?b0 b1"
    using buffer_read_adv [of ?b0 "int sz_rfbFramebufferUpdateMsg"] r by simp
  then have "advances ?b0 b2"
    using rectLoop_adv [OF l] advances_trans by blast
  then have pos: "buf_pos b2 \<le> length (inbuf (m_socket s))"
    by (simp add: advances_def)
  show ?thesis
  proof (cases "length message \<noteq> sz_rfbFramebufferUpdateMsg")
    case True
    then show ?thesis
      using f r by (simp add: receiveFramebufferUpdateMessage_def sock_peek_def bytesAvailable_def Let_def)
  next
    case False
    show ?thesis
    proof (cases ok)
      case True
      then have s1s: "s1 = s" using l rectLoop_True_state [of "field16 2 message" s b1 "[]" s1 b2 reg] by simp
      have rm: "readMessage (to_int (buf_pos b2)) (s\<lparr>m_lastUpdatedRect := boundingRect reg\<rparr>) = (False, s')"
        using f r l False True s1s
        by (simp add: receiveFramebufferUpdateMessage_def sock_peek_def bytesAvailable_def Let_def)
      have ti: "to_int (buf_pos b2) = int (buf_pos b2)"
        using pos small by (simp add: to_int_small)
      have "fst (readMessage (to_int (buf_pos b2)) (s\<lparr>m_lastUpdatedRect := boundingRect reg\<rparr>))"
        using readMessage_enough [of "to_int (buf_pos b2)" "s\<lparr>m_lastUpdatedRect := boundingRect reg\<rparr>"]
          ti pos by simp
      then show ?thesis using rm by simp
    next
      case F: False
      then have "s' = s1"
        using f r l False
        by (simp add: receiveFramebufferUpdateMessage_def sock_peek_def bytesAvailable_def Let_def)
      then show ?thesis using s1 o by (auto simp: closeSocket_def sock_close_def)
    qed
  qed
qed
lemma receiveFramebufferUpdateMessage_fatal_arrive:
  assumes f: "receiveFramebufferUpdateMessage s = (False, s')"
      and c: "closed (m_socket s')" and o: "\<not> closed (m_socket s)"
      and small: "length (inbuf (m_socket s)) < 2 ^ 31"
  shows "receiveFramebufferUpdateMessage (arrive e s) = (False, arrive e s')"
proof -
  let ?b0 = "\<lparr>buf_data = inbuf (m_socket s), buf_pos = 0\<rparr>"
  obtain message b1 where r: "buffer_read (int sz_rfbFramebufferUpdateMsg) ?b0 = (message, b1)"
    by (metis surj_pair)
  obtain ok s1 b2 reg where l: "rectLoop (field16 2 message) s b1 [] = (ok, s1, b2, reg)"
    by (metis surj_pair)
  have len: "length message = sz_rfbFramebufferUpdateMsg"
    using f r c o
    by (auto simp: receiveFramebufferUpdateMessage_def sock_peek_def bytesAvailable_def Let_def
        split: if_splits)
  have nok: "\<not> ok"
  proof
    assume ok
    then have s1s: "s1 = s" using l rectLoop_True_state [of "field16 2 message" s b1 "[]" s1 b2 reg] by simp
    have rm: "readMessage (to_int (buf_pos b2)) (s\<lparr>m_lastUpdatedRect := boundingRect reg\<rparr>) = (False, s')"
      using f r l len \<open>ok\<close> s1s
      by (simp add: receiveFramebufferUpdateMessage_def sock_peek_def bytesAvailable_def Let_def)
    then have "s' = s\<lparr>m_lastUpdatedRect := boundingRect reg\<rparr>" by (rule readMessage_False)
    then show False using c o by simp
  qed
  then have s1: "s1 = s'"
    using f r l len
    by (simp add: receiveFramebufferUpdateMessage_def sock_peek_def bytesAvailable_def Let_def)
  have b0e: "\<lparr>buf_data = inbuf (m_socket s) @ e, buf_pos = 0\<rparr> = ext ?b0 e"
    by (simp add: ext_def)
  have re: "buffer_read (int sz_rfbFramebufferUpdateMsg) (ext ?b0 e) = (message, ext b1 e)"
    using buffer_read_ext [OF r, of e] len by simp
  obtain b3 reg3 where "rectLoop (field16 2 message) s (ext b1 e) [] = (False, s', b3, reg3)"
    using rectLoop_close_ext [of "field16 2 message" s b1 "[]" s' b2 reg e] l nok s1 c o by auto
  then have le: "rectLoop (field16 2 message) (arrive e s) (ext b1 e) [] = (False, arrive e s', b3, reg3)"
    by (rule rectLoop_arrive)
  show ?thesis
    using re le len
    by (simp add: receiveFramebufferUpdateMessage_def sock_peek_def bytesAvailable_def Let_def b0e)
qed
lemma closeSocket_arrive: "closeSocket (arrive e s) = arrive e (closeSocket s)"
  by (simp add: closeSocket_def arrive_def sock_close_def)

lemma read_auth_arrive:
  assumes st: "m_state s = SecurityChallenge \<or> m_state s = SecurityResult"
      and d: "fst (read des s) \<or> closed (m_socket (snd (read des s)))"
      and o: "\<not> closed (m_socket s)"
  shows "read des (arrive e s) = (fst (read des s), arrive e (snd (read des s)))"
  using assms
  by (auto simp: read_def receiveSecurityChallenge_def receiveSecurityResult_def sock_defs
        arrive_def Let_def be32_append split: if_splits)

lemma read_auth_quiet:
  assumes st: "m_state s = SecurityChallenge \<or> m_state s = SecurityResult"
      and d: "\<not> fst (read des s)" "\<not> closed (m_socket (snd (read des s)))"
  shows "snd (read des s) = s"
  using assms
  by (auto simp: read_def receiveSecurityChallenge_def receiveSecurityResult_def sock_defs
        Let_def split: if_splits)

lemma simple_message_False:
  "receiveColourMapEntriesMessage s = (False, s') \<Longrightarrow> s' = s"
  "receiveBellMessage s = (False, s') \<Longrightarrow> s' = s"
  "receiveCutTextMessage s = (False, s') \<Longrightarrow> s' = s"
  "receiveResizeFramebufferMessage s = (False, s') \<Longrightarrow> s' = s"
  "receiveXvpMessage s = (False, s') \<Longrightarrow> s' = s"
proof -
  show "receiveColourMapEntriesMessage s = (False, s') \<Longrightarrow> s' = s"
    by (auto simp: receiveColourMapEntriesMessage_def Let_def split: if_splits dest: readMessage_False)
  show "receiveBellMessage s = (False, s') \<Longrightarrow> s' = s"
    by (auto simp: receiveBellMessage_def dest: readMessage_False)
  show "receiveCutTextMessage s = (False, s') \<Longrightarrow> s' = s"
    by (auto simp: receiveCutTextMessage_def Let_def split: if_splits dest: readMessage_False)
  show "receiveResizeFramebufferMessage s = (False, s') \<Longrightarrow> s' = s"
    by (auto simp: receiveResizeFramebufferMessage_def split: prod.splits bool.splits
        dest: readMessage_False)
  show "receiveXvpMessage s = (False, s') \<Longrightarrow> s' = s"
    by (auto simp: receiveXvpMessage_def dest: readMessage_False)
qed

lemma receiveMessage_dispatch:
  assumes "\<not> bytesAvailable (m_socket s) > mx" and "sock_peek 1 (m_socket s) = [ty]"
  shows "receiveMessage mx s =
     (if ty = rfbFramebufferUpdate then receiveFramebufferUpdateMessage s
      else if ty = rfbSetColourMapEntries then receiveColourMapEntriesMessage s
      else if ty = rfbBell then receiveBellMessage s
      else if ty = rfbServerCutText then receiveCutTextMessage s
      else if ty = rfbResizeFrameBuffer then receiveResizeFramebufferMessage s
      else if ty = rfbXvp then receiveXvpMessage s
      else (False, closeSocket s))"
  using assms by (simp add: receiveMessage_def)

lemma receiveMessage_False_cases:
  assumes f: "receiveMessage mx s = (False, s')"
  shows "s' = s \<or> s' = closeSocket s \<or>
         (\<not> bytesAvailable (m_socket s) > mx \<and> receiveFramebufferUpdateMessage s = (False, s'))"
proof (cases "bytesAvailable (m_socket s) > mx")
  case True
  then show ?thesis using f by (simp add: receiveMessage_def)
next
  case False
  show ?thesis
  proof (cases "\<exists>ty. sock_peek 1 (m_socket s) = [ty]")
    case nope: False
    then have "s' = s"
      using f False by (auto simp: receiveMessage_def split: list.splits)
    then show ?thesis by simp
  next
    case True
    then obtain ty where p: "sock_peek 1 (m_socket s) = [ty]" by blast
    note d = receiveMessage_dispatch [OF False p]
    show ?thesis
      using f simple_message_False [of s s'] unfolding d
      by (simp split: if_splits add: False)
  qed
qed

lemma receiveMessage_quiet:
  assumes f: "receiveMessage mx s = (False, s')"
      and o: "\<not> closed (m_socket s')" and m31: "mx < 2 ^ 31"
  shows "s' = s"
proof -
  have nc: "s' \<noteq> closeSocket s \<or> s' = s"
    using o by (auto simp: closeSocket_def sock_close_def)
  from receiveMessage_False_cases [OF f] nc
  consider "s' = s"
    | "\<not> bytesAvailable (m_socket s) > mx" "receiveFramebufferUpdateMessage s = (False, s')"
    by blast
  then show ?thesis
  proof cases
    case 1
    then show ?thesis .
  next
    case 2
    then have "length (inbuf (m_socket s)) < 2 ^ 31"
      using m31 by (simp add: bytesAvailable_def)
    then show ?thesis
      using receiveFramebufferUpdateMessage_quiet [OF 2(2) o] by simp
  qed
qed

lemma receiveMessage_fatal_arrive:
  assumes f: "receiveMessage mx s = (False, s')"
      and c: "closed (m_socket s')" and o: "\<not> closed (m_socket s)"
      and mx: "length (inbuf (m_socket s)) + length e \<le> mx" and m31: "mx < 2 ^ 31"
  shows "receiveMessage mx (arrive e s) = (False, arrive e s')"
proof -
  have small: "\<not> bytesAvailable (m_socket s) > mx" "\<not> bytesAvailable (m_socket (arrive e s)) > mx"
    using mx by (simp_all add: bytesAvailable_def)
  have l31: "length (inbuf (m_socket s)) < 2 ^ 31" using mx m31 by simp
  have ns: "s' \<noteq> s" using c o by auto
  obtain ty where p: "sock_peek 1 (m_socket s) = [ty]"
    using f small ns by (auto simp: receiveMessage_def split: list.splits)
  have pe: "sock_peek 1 (m_socket (arrive e s)) = [ty]"
    using take_peek_arrive [of 1 s e] p by simp
  note d = receiveMessage_dispatch [OF small(1) p]
  note de = receiveMessage_dispatch [OF small(2) pe]
  show ?thesis
  proof (cases "ty = rfbFramebufferUpdate")
    case True
    then have "receiveFramebufferUpdateMessage s = (False, s')"
      using f d by simp
    then show ?thesis
      using receiveFramebufferUpdateMessage_fatal_arrive [OF _ c o l31, of e] True de by simp
  next
    case False
    then have "s' = closeSocket s \<and> ty \<noteq> rfbSetColourMapEntries \<and> ty \<noteq> rfbBell \<and>
               ty \<noteq> rfbServerCutText \<and> ty \<noteq> rfbResizeFrameBuffer \<and> ty \<noteq> rfbXvp"
      using f ns simple_message_False [of s s'] unfolding d
      by (simp split: if_splits)
    then show ?thesis
      using False de by (simp add: closeSocket_arrive)
  qed
qed



subsection \<open>Chunking of the byte stream\<close>

text \<open>
  Claim C2, as amended. For the SecurityChallenge and SecurityResult steps of
  \<^verbatim>\<open>read()\<close> and for \<^verbatim>\<open>receiveMessage()\<close> (with a maximum message size below
  \<open>2 ^ 31\<close> that the buffered bytes do not exceed), the outcome of a step does not depend
  on how the stream is chunked: a step that succeeds or fails fatally on the bytes
  buffered so far has the same result, with the same bytes consumed and the same reply,
  when any further bytes of the stream have already arrived; and a step that returns
  false without closing the transport changes nothing, so that retrying it after more
  bytes have arrived is the same as a single delivery.
\<close>

theorem step_outcome_ignores_later_bytes:
  "((m_state s = SecurityChallenge \<or> m_state s = SecurityResult) \<and> \<not> closed (m_socket s) \<and>
    (fst (read des s) \<or> closed (m_socket (snd (read des s)))) \<longrightarrow>
      read des (arrive e s) = (fst (read des s), arrive e (snd (read des s)))) \<and>
   ((m_state s = SecurityChallenge \<or> m_state s = SecurityResult) \<and>
    \<not> fst (read des s) \<and> \<not> closed (m_socket (snd (read des s))) \<longrightarrow>
      snd (read des s) = s) \<and>
   (mx < 2 ^ 31 \<and> length (inbuf (m_socket s)) + length e \<le> mx \<and> \<not> closed (m_socket s) \<and>
    (fst (receiveMessage mx s) \<or> closed (m_socket (snd (receiveMessage mx s)))) \<longrightarrow>
      receiveMessage mx (arrive e s)
        = (fst (receiveMessage mx s), arrive e (snd (receiveMessage mx s)))) \<and>
   (mx < 2 ^ 31 \<and> \<not> fst (receiveMessage mx s) \<and>
    \<not> closed (m_socket (snd (receiveMessage mx s))) \<longrightarrow>
      snd (receiveMessage mx s) = s)"
proof -
  obtain ok s' where r: "receiveMessage mx s = (ok, s')"
    by (metis surj_pair)
  have 3: "receiveMessage mx (arrive e s) = (ok, arrive e s')"
    if "mx < 2 ^ 31" "length (inbuf (m_socket s)) + length e \<le> mx" "\<not> closed (m_socket s)"
       "ok \<or> closed (m_socket s')"
  proof (cases ok)
    case True
    then show ?thesis using receiveMessage_arrive [of mx s s' e] r that by simp
  next
    case False
    then show ?thesis using receiveMessage_fatal_arrive [of mx s s' e] r that by simp
  qed
  have 4: "s' = s" if "mx < 2 ^ 31" "\<not> ok" "\<not> closed (m_socket s')"
    using receiveMessage_quiet [of mx s s'] r that by simp
  show ?thesis
    using read_auth_arrive [of s des e] read_auth_quiet [of s des] 3 4 r by auto
qed

theorem step_outcome_ignores_later_bytes_witness:
  "read xorCipher (mkEngine SecurityResult [0, 0, 0, 0])
     = (True, (mkEngine FramebufferInit [])\<lparr>m_socket := (mkSocket [])\<lparr>outbuf := [1]\<rparr>\<rparr>) \<and>
   read xorCipher (mkEngine SecurityResult [0, 0, 0, 0, 4, 0])
     = (True, (mkEngine FramebufferInit [4, 0])\<lparr>m_socket := (mkSocket [4, 0])\<lparr>outbuf := [1]\<rparr>\<rparr>) \<and>
   read xorCipher (mkEngine SecurityResult [0, 0])
     = (False, mkEngine SecurityResult [0, 0]) \<and>
   receiveMessage 64 (mkEngine Running [2]) = (True, (mkEngine Running [])\<lparr>m_lastMessage := [2]\<rparr>) \<and>
   receiveMessage 64 (mkEngine Running [2, 3])
     = (True, (mkEngine Running [3])\<lparr>m_lastMessage := [2]\<rparr>) \<and>
   receiveMessage 64 (mkEngine Running [3, 0, 0]) = (False, mkEngine Running [3, 0, 0])"
proof -
  have a: "read xorCipher (mkEngine SecurityResult [0, 0, 0, 0])
     = (True, (mkEngine FramebufferInit [])\<lparr>m_socket := (mkSocket [])\<lparr>outbuf := [1]\<rparr>\<rparr>)"
    by (simp add: read_def receiveSecurityResult_def sock_defs mkEngine_def mkSocket_def)
  have b: "read xorCipher (mkEngine SecurityResult [0, 0]) = (False, mkEngine SecurityResult [0, 0])"
    by (simp add: read_def receiveSecurityResult_def sock_defs mkEngine_def mkSocket_def)
  have c: "receiveMessage 64 (mkEngine Running [2]) = (True, (mkEngine Running [])\<lparr>m_lastMessage := [2]\<rparr>)"
    by (simp add: receiveMessage_def receiveBellMessage_def readMessage_def
        sock_defs mkEngine_def mkSocket_def)
  have d: "receiveMessage 64 (mkEngine Running [3, 0, 0]) = (False, mkEngine Running [3, 0, 0])"
    by (simp add: receiveMessage_def receiveCutTextMessage_def readMessage_def
        sock_defs mkEngine_def mkSocket_def)
  have e1: "arrive [4, 0] (mkEngine SecurityResult [0, 0, 0, 0]) = mkEngine SecurityResult [0, 0, 0, 0, 4, 0]"
    and e2: "arrive [3] (mkEngine Running [2]) = mkEngine Running [2, 3]"
    by (simp_all add: arrive_def mkEngine_def mkSocket_def)
  show ?thesis
    using a b c d
      step_outcome_ignores_later_bytes [where s = "mkEngine SecurityResult [0, 0, 0, 0]"
        and des = xorCipher and e = "[4, 0]" and mx = 0]
      step_outcome_ignores_later_bytes [where s = "mkEngine SecurityResult [0, 0]"
        and des = xorCipher and e = "[]" and mx = 0]
      step_outcome_ignores_later_bytes [where s = "mkEngine Running [2]"
        and des = xorCipher and mx = 64 and e = "[3]"]
      step_outcome_ignores_later_bytes [where s = "mkEngine Running [3, 0, 0]"
        and des = xorCipher and mx = 64 and e = "[]"]
    unfolding e1 e2
    by (simp add: arrive_def mkEngine_def mkSocket_def)
qed

declare pump.simps [simp del]

lemma pump_True: "read des s = (True, s1) \<Longrightarrow> pump des s = (m_state s1 # fst (pump des s1), snd (pump des s1))"
  by (subst pump.simps) (simp split: prod.splits)

lemma pump_False: "read des s = (False, s1) \<Longrightarrow> pump des s = ([], s1)"
  by (subst pump.simps) simp

text \<open>
  The claim as stated fails for the handshake: the same valid stream, the version line
  followed by the security-type list \<open>[1]\<close>, makes no transition when delivered at once
  (the ProtocolVersion step requires exactly 12 buffered bytes), and reaches
  SecurityResult when the version line is delivered first.
\<close>

theorem chunking_changes_handshake_counterexample:
  "concat [ascii ''RFB 003.008'' @ [0x0A, 1, 1]] = concat [ascii ''RFB 003.008'' @ [0x0A], [1, 1]] \<and>
   fst (deliver xorCipher (mkEngine Protocol []) [ascii ''RFB 003.008'' @ [0x0A, 1, 1]]) = [] \<and>
   m_state (snd (deliver xorCipher (mkEngine Protocol []) [ascii ''RFB 003.008'' @ [0x0A, 1, 1]]))
     = Protocol \<and>
   fst (deliver xorCipher (mkEngine Protocol []) [ascii ''RFB 003.008'' @ [0x0A], [1, 1]])
     = [SecurityInit, SecurityResult] \<and>
   m_state (snd (deliver xorCipher (mkEngine Protocol []) [ascii ''RFB 003.008'' @ [0x0A], [1, 1]]))
     = SecurityResult"
proof -
  let ?v = "[0x52, 0x46, 0x42, 0x20, 0x30, 0x30, 0x33, 0x2E, 0x30, 0x30, 0x38, 0x0A] :: byte list"
  have v: "ascii ''RFB 003.008'' @ [0x0A] = ?v" "ascii ''RFB 003.008'' @ [0x0A, 1, 1] = ?v @ [1, 1]"
    by (simp_all add: ascii_def)
  have a: "read xorCipher (arrive (?v @ [1, 1]) (mkEngine Protocol []))
             = (False, mkEngine Protocol (?v @ [1, 1]))"
    by (simp add: read_def readProtocol_def sock_defs arrive_def mkEngine_def mkSocket_def)
  let ?s1 = "(mkEngine SecurityInit [])\<lparr>m_socket := (mkSocket [])\<lparr>outbuf := ?v\<rparr>\<rparr>"
  have b1: "read xorCipher (arrive ?v (mkEngine Protocol [])) = (True, ?s1)"
    by (simp add: read_def readProtocol_def sock_defs arrive_def mkEngine_def mkSocket_def
        versionMatch_def isDigit_def toInt_def)
  have b2: "read xorCipher ?s1 = (False, ?s1)"
    by (simp add: read_def receiveSecurityTypes_def sock_defs mkEngine_def mkSocket_def)
  let ?s2 = "(mkEngine SecurityResult [])\<lparr>m_socket := (mkSocket [])\<lparr>outbuf := ?v @ [1]\<rparr>\<rparr>"
  have b3: "read xorCipher (arrive [1, 1] ?s1) = (True, ?s2)"
    by (simp add: read_def receiveSecurityTypes_def sock_defs arrive_def mkEngine_def mkSocket_def)
  have b4: "read xorCipher ?s2 = (False, ?s2)"
    by (simp add: read_def receiveSecurityResult_def sock_defs mkEngine_def mkSocket_def)
  have pa: "pump xorCipher (arrive (?v @ [1, 1]) (mkEngine Protocol []))
              = ([], mkEngine Protocol (?v @ [1, 1]))"
    using pump_False [OF a] .
  have pb1: "pump xorCipher (arrive ?v (mkEngine Protocol [])) = ([SecurityInit], ?s1)"
    using pump_True [OF b1] pump_False [OF b2] by (simp add: mkEngine_def)
  have pb2: "pump xorCipher (arrive [1, 1] ?s1) = ([SecurityResult], ?s2)"
    using pump_True [OF b3] pump_False [OF b4] by (simp add: mkEngine_def)
  show ?thesis
    unfolding v using pa pb1 pb2 by (simp add: mkEngine_def)
qed

subsection \<open>The updated region of a framebuffer update\<close>

lemma region_add_append: "region_add reg r = reg @ region_add [] r"
  by (simp add: region_add_def)

lemma read_uint_ok_exact:
  assumes "drop (buf_pos b) (buf_data b) = p @ rest" and "length p = n" and "n < 2 ^ 31"
  shows "read_uint_ok n b = (True, b\<lparr>buf_pos := buf_pos b + n\<rparr>)"
proof -
  have "u32 n = n" using assms(3) by (simp add: u32_def)
  then show ?thesis
    using buffer_read_exact [OF assms(1)] assms(2) to_int_small [OF assms(3)]
    by (simp add: read_uint_ok_def)
qed

lemma handleRect_Raw:
  "encoding hdr = rfbEncodingRaw \<Longrightarrow>
   handleRect s b hdr =
     (read_uint_ok (r_w hdr * r_h hdr * (bitsPerPixel (m_pixelFormat s) div 8)) b, s)"
  by (simp add: handleRect_def Let_def)

lemma rect_united_contains:
  "rect_points a \<subseteq> rect_points (rect_united a b)"
  "rect_points b \<subseteq> rect_points (rect_united a b)"
  by (auto simp: rect_points_def rect_united_def mkRect_def Let_def)

lemma foldl_united_contains:
  "rect_points acc \<subseteq> rect_points (foldl rect_united acc rs) \<and>
   (\<forall>r \<in> set rs. rect_points r \<subseteq> rect_points (foldl rect_united acc rs))"
proof (induction rs arbitrary: acc)
  case Nil
  then show ?case by simp
next
  case (Cons r rs)
  have ih: "rect_points (rect_united acc r) \<subseteq> rect_points (foldl rect_united (rect_united acc r) rs)"
    "\<forall>q \<in> set rs. rect_points q \<subseteq> rect_points (foldl rect_united (rect_united acc r) rs)"
    using Cons.IH [of "rect_united acc r"] by simp_all
  show ?case
    using ih rect_united_contains [of acc r] rect_united_contains(2) [of r acc]
    by simp blast
qed

lemma region_in_boundingRect: "region_points reg \<subseteq> rect_points (boundingRect reg)"
proof (cases reg)
  case Nil
  then show ?thesis by (simp add: region_points_def)
next
  case (Cons r rs)
  then show ?thesis
    using foldl_united_contains [of r rs] by (auto simp: region_points_def)
qed

lemma rawRegion_Cons:
  "rawRegion fbWidth fbHeight (item # items) =
     (if encoding (itemHeader item) = rfbEncodingRaw
      then pixelRegion fbWidth fbHeight (itemHeader item) else [])
     @ rawRegion fbWidth fbHeight items"
  by (simp add: rawRegion_def)

lemma read_int_ok_exact:
  assumes "drop (buf_pos b) (buf_data b) = p @ rest"
  shows "read_int_ok (int (length p)) b = (True, b\<lparr>buf_pos := buf_pos b + length p\<rparr>)"
  using buffer_read_exact [OF assms] by (simp add: read_int_ok_def)

lemma rectBody_item:
  assumes d: "drop (buf_pos b) (buf_data b) = itemBytes item @ rest"
      and wf: "rawOrMetadata (bitsPerPixel (m_pixelFormat s) div 8) item"
      and small: "length (snd item) < 2 ^ 31"
  shows "rectBody s b reg =
           (NextRect, s, b\<lparr>buf_pos := buf_pos b + length (itemBytes item)\<rparr>,
            reg @ rawRegion (m_framebufferWidth s) (m_framebufferHeight s) [item])"
proof -
  obtain h p where item: "item = (h, p)" by (cases item)
  let ?hdr = "parseRectHeader h"
  let ?b1 = "b\<lparr>buf_pos := buf_pos b + 12\<rparr>"
  let ?b2 = "b\<lparr>buf_pos := buf_pos b + 12 + length p\<rparr>"
  have lh: "length h = 12"
    and enc: "encoding ?hdr = rfbEncodingRaw \<or> encoding ?hdr \<in> set metadataEncodings"
    and lp: "length p = payloadSize (bitsPerPixel (m_pixelFormat s) div 8) ?hdr"
    using wf item by (simp_all add: rawOrMetadata_def itemHeader_def)
  have d0: "drop (buf_pos b) (buf_data b) = h @ (p @ rest)"
    using d item by (simp add: itemBytes_def)
  have r: "buffer_read (int sz_rfbFramebufferUpdateRectHeader) b = (h, ?b1)"
    using buffer_read_exact [OF d0] lh by simp
  have "drop (buf_pos b + 12) (buf_data b) = drop 12 (drop (buf_pos b) (buf_data b))"
    by (simp add: add.commute)
  then have d2: "drop (buf_pos ?b1) (buf_data ?b1) = p @ rest"
    using d0 lh by simp
  have sm: "length p < 2 ^ 31" using small item by simp
  have ru: "read_uint_ok (length p) ?b1 = (True, ?b2)"
    using read_uint_ok_exact [OF d2 refl sm] by simp
  have ri: "read_int_ok (int (length p)) ?b1 = (True, ?b2)"
    using read_int_ok_exact [OF d2] by simp
  have hr: "handleRect s ?b1 ?hdr = ((True, ?b2), s)"
  proof -
    consider (raw) "encoding ?hdr = rfbEncodingRaw"
      | (msgs) "encoding ?hdr = rfbEncodingSupportedMessages"
      | (width) "encoding ?hdr = rfbEncodingSupportedEncodings \<or>
                 encoding ?hdr = rfbEncodingServerIdentity"
      | (none) "encoding ?hdr = rfbEncodingPointerPos \<or>
                encoding ?hdr = rfbEncodingKeyboardLedState \<or>
                encoding ?hdr = rfbEncodingNewFBSize"
      using enc by (auto simp: metadataEncodings_def)
    then show ?thesis
    proof cases
      case raw
      then show ?thesis using ru lp by (simp add: handleRect_Raw payloadSize_def)
    next
      case msgs
      then have "length p = 64" using lp by (simp add: payloadSize_def)
      then show ?thesis using ri msgs by (simp add: handleRect_def Let_def)
    next
      case width
      then have "length p = r_w ?hdr" using lp by (auto simp: payloadSize_def)
      then show ?thesis using ru width by (auto simp: handleRect_def Let_def)
    next
      case none
      then have "length p = 0" using lp by (auto simp: payloadSize_def)
      then show ?thesis using none by (auto simp: handleRect_def Let_def)
    qed
  qed
  have ps: "isPseudoEncoding ?hdr = (encoding ?hdr \<noteq> rfbEncodingRaw)"
    using enc by (auto simp: isPseudoEncoding_def metadataEncodings_def)
  have nl: "encoding ?hdr \<noteq> rfbEncodingLastRect"
    using enc by (auto simp: metadataEncodings_def)
  show ?thesis
    using r hr ps nl lh region_add_append [of reg]
    by (simp add: rectBody_def Let_def item itemBytes_def rawRegion_def itemHeader_def
          pixelRegion_def rectOf_def)
qed

lemma rectLoop_items:
  "list_all (rawOrMetadata (bitsPerPixel (m_pixelFormat s) div 8)) items \<Longrightarrow>
   drop (buf_pos b) (buf_data b) = concat (map itemBytes items) @ rest \<Longrightarrow>
   length (concat (map itemBytes items)) < 2 ^ 31 \<Longrightarrow>
   rectLoop (length items) s b reg =
     (True, s, b\<lparr>buf_pos := buf_pos b + length (concat (map itemBytes items))\<rparr>,
      reg @ rawRegion (m_framebufferWidth s) (m_framebufferHeight s) items)"
proof (induction items arbitrary: b reg)
  case Nil
  then show ?case by (simp add: rawRegion_def)
next
  case (Cons item items)
  let ?b1 = "b\<lparr>buf_pos := buf_pos b + length (itemBytes item)\<rparr>"
  have wf: "rawOrMetadata (bitsPerPixel (m_pixelFormat s) div 8) item"
    and wfs: "list_all (rawOrMetadata (bitsPerPixel (m_pixelFormat s) div 8)) items"
    using Cons.prems(1) by simp_all
  have d: "drop (buf_pos b) (buf_data b) = itemBytes item @ (concat (map itemBytes items) @ rest)"
    using Cons.prems(2) by simp
  have "length (snd item) \<le> length (itemBytes item)"
    by (simp add: itemBytes_def)
  then have small: "length (snd item) < 2 ^ 31" "length (concat (map itemBytes items)) < 2 ^ 31"
    using Cons.prems(3) by simp_all
  have rb: "rectBody s b reg =
           (NextRect, s, ?b1, reg @ rawRegion (m_framebufferWidth s) (m_framebufferHeight s) [item])"
    by (rule rectBody_item [OF d wf small(1)])
  have "drop (buf_pos b + length (itemBytes item)) (buf_data b)
          = drop (length (itemBytes item)) (drop (buf_pos b) (buf_data b))"
    by (simp add: add.commute)
  then have d': "drop (buf_pos ?b1) (buf_data ?b1) = concat (map itemBytes items) @ rest"
    using d by simp
  have IH: "rectLoop (length items) s ?b1
              (reg @ rawRegion (m_framebufferWidth s) (m_framebufferHeight s) [item]) =
            (True, s, ?b1\<lparr>buf_pos := buf_pos ?b1 + length (concat (map itemBytes items))\<rparr>,
             (reg @ rawRegion (m_framebufferWidth s) (m_framebufferHeight s) [item])
               @ rawRegion (m_framebufferWidth s) (m_framebufferHeight s) items)"
    by (rule Cons.IH [OF wfs d' small(2)])
  have rr: "rawRegion (m_framebufferWidth s) (m_framebufferHeight s) (item # items)
            = rawRegion (m_framebufferWidth s) (m_framebufferHeight s) [item]
              @ rawRegion (m_framebufferWidth s) (m_framebufferHeight s) items"
    by (simp add: rawRegion_def)
  show ?case
    using rb IH by (simp add: rr add.assoc)
qed

lemma framebufferUpdate_items:
  assumes inb: "inbuf (m_socket s) = m @ concat (map itemBytes items) @ rest"
      and lm: "length m = sz_rfbFramebufferUpdateMsg"
      and ty: "hd m = rfbFramebufferUpdate"
      and cnt: "field16 2 m = length items"
      and wf: "list_all (rawOrMetadata (bitsPerPixel (m_pixelFormat s) div 8)) items"
      and mx: "length (inbuf (m_socket s)) \<le> mx" and m31: "mx < 2 ^ 31"
  shows "receiveMessage mx s =
           (True, s\<lparr>m_socket := (m_socket s)\<lparr>inbuf := rest\<rparr>,
                     m_lastMessage := m @ concat (map itemBytes items),
                     m_lastUpdatedRect :=
                       boundingRect (rawRegion (m_framebufferWidth s) (m_framebufferHeight s) items)\<rparr>)"
proof -
  let ?b0 = "\<lparr>buf_data = inbuf (m_socket s), buf_pos = 0\<rparr>"
  let ?body = "concat (map itemBytes items)"
  let ?n = "length (m @ ?body)"
  let ?reg = "rawRegion (m_framebufferWidth s) (m_framebufferHeight s) items"
  have small: "length ?body < 2 ^ 31" "?n < 2 ^ 31"
    using mx m31 inb by simp_all
  have r0: "buffer_read (int sz_rfbFramebufferUpdateMsg) ?b0 = (m, ?b0\<lparr>buf_pos := 4\<rparr>)"
    using buffer_read_exact [of ?b0 m "?body @ rest"] inb lm by simp
  have d1: "drop (buf_pos (?b0\<lparr>buf_pos := 4\<rparr>)) (buf_data (?b0\<lparr>buf_pos := 4\<rparr>))
              = ?body @ rest"
    using inb lm by simp
  have loop: "rectLoop (length items) s (?b0\<lparr>buf_pos := 4\<rparr>) [] =
                (True, s, ?b0\<lparr>buf_pos := ?n\<rparr>, ?reg)"
    using rectLoop_items [OF wf d1 small(1), of "[]"] lm by simp
  have rm: "readMessage (int ?n) (s\<lparr>m_lastUpdatedRect := boundingRect ?reg\<rparr>) =
              (True, s\<lparr>m_socket := (m_socket s)\<lparr>inbuf := rest\<rparr>,
                        m_lastMessage := m @ ?body,
                        m_lastUpdatedRect := boundingRect ?reg\<rparr>)"
    using inb by (simp add: readMessage_def bytesAvailable_def sock_read_def)
  have fbu: "receiveFramebufferUpdateMessage s =
           (True, s\<lparr>m_socket := (m_socket s)\<lparr>inbuf := rest\<rparr>,
                     m_lastMessage := m @ ?body,
                     m_lastUpdatedRect := boundingRect ?reg\<rparr>)"
    using r0 loop rm cnt lm to_int_small [OF small(2)]
    by (simp add: receiveFramebufferUpdateMessage_def sock_peek_def bytesAvailable_def Let_def)
  have pk: "sock_peek 1 (m_socket s) = [rfbFramebufferUpdate]"
    using inb lm ty by (cases m) (simp_all add: sock_peek_def)
  show ?thesis
    using fbu pk mx by (simp add: receiveMessage_def bytesAvailable_def)
qed

lemma rectBody_metadata:
  assumes "rectBody t b reg0 = (st, t', b', reg1)"
      and "encoding (parseRectHeader (fst (buffer_read (int sz_rfbFramebufferUpdateRectHeader) b)))
             \<in> set (rfbEncodingLastRect # metadataEncodings)"
  shows "reg1 = reg0"
  using assms
  by (auto simp: rectBody_def Let_def isPseudoEncoding_def metadataEncodings_def
           split: if_splits prod.splits)

text \<open>
  Claim C4, as amended. After a FramebufferUpdate message made of Raw rectangles and of
  rectangles that carry one of the metadata encodings SupportedEncodings,
  SupportedMessages, ServerIdentity, PointerPos, KeyboardLedState and NewFBSize, in any
  number and order (in particular: of two Raw rectangles), is fully consumed, the exposed
  updated rectangle is the bounding rectangle of those Raw rectangles that have non-zero
  area and lie within the current framebuffer geometry: one rectangle that contains their
  union. The rectangles that carry a metadata encoding contribute nothing to it, whatever
  their coordinates and size; and in every update, a rectangle that carries one of these
  encodings or the LastRect marker leaves the region accumulated by the loop as it was.
\<close>

theorem updated_rect_of_raw_rectangles:
  assumes inb: "inbuf (m_socket s) = m @ concat (map itemBytes items) @ rest"
      and lm: "length m = sz_rfbFramebufferUpdateMsg"
      and ty: "hd m = rfbFramebufferUpdate"
      and cnt: "field16 2 m = length items"
      and wf: "list_all (rawOrMetadata (bitsPerPixel (m_pixelFormat s) div 8)) items"
      and mx: "length (inbuf (m_socket s)) \<le> mx" and m31: "mx < 2 ^ 31"
      and reg: "reg = rawRegion (m_framebufferWidth s) (m_framebufferHeight s) items"
  shows "receiveMessage mx s =
           (True, s\<lparr>m_socket := (m_socket s)\<lparr>inbuf := rest\<rparr>,
                     m_lastMessage := m @ concat (map itemBytes items),
                     m_lastUpdatedRect := boundingRect reg\<rparr>) \<and>
         region_points reg \<subseteq> rect_points (boundingRect reg) \<and>
         (rectBody t b reg0 = (st, t', b', reg1) \<and>
          encoding (parseRectHeader (fst (buffer_read (int sz_rfbFramebufferUpdateRectHeader) b)))
            \<in> set (rfbEncodingLastRect # metadataEncodings) \<longrightarrow> reg1 = reg0)"
proof -
  have 1: "receiveMessage mx s =
           (True, s\<lparr>m_socket := (m_socket s)\<lparr>inbuf := rest\<rparr>,
                     m_lastMessage := m @ concat (map itemBytes items),
                     m_lastUpdatedRect := boundingRect reg\<rparr>)"
    unfolding reg by (rule framebufferUpdate_items [OF inb lm ty cnt wf mx m31])
  show ?thesis
    using 1 region_in_boundingRect [of reg] rectBody_metadata [of t b reg0 st t' b' reg1]
    by blast
qed

theorem updated_rect_of_raw_rectangles_witness:
  "receiveMessage 64
     (mkRunning ([0, 0, 0, 3] @ [0, 1, 0, 1, 0, 2, 0, 1, 0, 0, 0, 0] @ [7, 7]
                 @ [0, 3, 0, 3, 0, 4, 0, 4, 255, 255, 255, 24]
                 @ [0, 5, 0, 4, 0, 1, 0, 2, 0, 0, 0, 0] @ [9, 9] @ [2])) =
     (True, (mkRunning [2])
        \<lparr>m_lastMessage := [0, 0, 0, 3] @ [0, 1, 0, 1, 0, 2, 0, 1, 0, 0, 0, 0] @ [7, 7]
                            @ [0, 3, 0, 3, 0, 4, 0, 4, 255, 255, 255, 24]
                            @ [0, 5, 0, 4, 0, 1, 0, 2, 0, 0, 0, 0] @ [9, 9],
          m_lastUpdatedRect := mkRect 1 1 5 5\<rparr>) \<and>
   region_points [mkRect 1 1 2 1, mkRect 5 4 1 2] \<subseteq> rect_points (mkRect 1 1 5 5) \<and>
   pixelRegion 10 10 (parseRectHeader [0, 3, 0, 3, 0, 4, 0, 4, 255, 255, 255, 24])
     = [mkRect 3 3 4 4] \<and>
   rectBody (mkRunning [])
       \<lparr>buf_data = [0, 3, 0, 3, 0, 4, 0, 4, 255, 255, 255, 24], buf_pos = 0\<rparr> [mkRect 1 1 2 1] =
     (NextRect, mkRunning [],
      \<lparr>buf_data = [0, 3, 0, 3, 0, 4, 0, 4, 255, 255, 255, 24], buf_pos = 12\<rparr>, [mkRect 1 1 2 1])"
proof -
  let ?a = "[0, 1, 0, 1, 0, 2, 0, 1, 0, 0, 0, 0] :: byte list"
  let ?p = "[0, 3, 0, 3, 0, 4, 0, 4, 255, 255, 255, 24] :: byte list"
  let ?b = "[0, 5, 0, 4, 0, 1, 0, 2, 0, 0, 0, 0] :: byte list"
  let ?items = "[(?a, [7, 7]), (?p, []), (?b, [9, 9])] :: rectItem list"
  let ?s = "mkRunning ([0, 0, 0, 3] @ ?a @ [7, 7] @ ?p @ ?b @ [9, 9] @ [2])"
  let ?pp = "\<lparr>buf_data = ?p, buf_pos = 0\<rparr>"
  let ?reg = "[mkRect 1 1 2 1, mkRect 5 4 1 2]"
  have pa: "parseRectHeader ?a = \<lparr>r_x = 1, r_y = 1, r_w = 2, r_h = 1, encoding = 0\<rparr>"
    and pb: "parseRectHeader ?b = \<lparr>r_x = 5, r_y = 4, r_w = 1, r_h = 2, encoding = 0\<rparr>"
    and pp: "parseRectHeader ?p =
               \<lparr>r_x = 3, r_y = 3, r_w = 4, r_h = 4, encoding = rfbEncodingPointerPos\<rparr>"
    by (simp_all add: parseRectHeader_def field16_def field32_def)
  have bpp: "\<And>bs. bitsPerPixel (m_pixelFormat (mkRunning bs)) div 8 = 1"
    by (simp add: mkRunning_def bitsPerPixel_def)
  have geo: "\<And>bs. m_framebufferWidth (mkRunning bs) = 10"
    "\<And>bs. m_framebufferHeight (mkRunning bs) = 10"
    by (simp_all add: mkRunning_def)
  have inb: "inbuf (m_socket ?s) = [0, 0, 0, 3] @ concat (map itemBytes ?items) @ [2]"
    by (simp add: mkRunning_def mkEngine_def mkSocket_def itemBytes_def)
  have lm: "length [0, 0, 0, 3 :: byte] = sz_rfbFramebufferUpdateMsg"
    and ty: "hd [0, 0, 0, 3 :: byte] = rfbFramebufferUpdate"
    and cnt: "field16 2 [0, 0, 0, 3] = length ?items"
    by (simp_all add: field16_def)
  have wf: "list_all (rawOrMetadata (bitsPerPixel (m_pixelFormat ?s) div 8)) ?items"
    by (simp add: bpp rawOrMetadata_def itemHeader_def pa pb pp payloadSize_def
          metadataEncodings_def)
  have mx: "length (inbuf (m_socket ?s)) \<le> 64"
    unfolding inb by (simp add: itemBytes_def)
  have m31: "(64 :: nat) < 2 ^ 31"
    by simp
  have reg: "?reg = rawRegion (m_framebufferWidth ?s) (m_framebufferHeight ?s) ?items"
    by (simp add: geo rawRegion_def itemHeader_def pa pb pp pixelRegion_def region_add_def
          rect_isEmpty_def rectOf_def mkRect_def)
  have br: "boundingRect ?reg = mkRect 1 1 5 5"
    by (simp add: rect_united_def mkRect_def)
  have px: "pixelRegion 10 10 (parseRectHeader ?p) = [mkRect 3 3 4 4]"
    by (simp add: pp pixelRegion_def region_add_def rect_isEmpty_def rectOf_def mkRect_def)
  have rb: "rectBody (mkRunning []) ?pp [mkRect 1 1 2 1] =
     (NextRect, mkRunning [], ?pp\<lparr>buf_pos := 12\<rparr>, [mkRect 1 1 2 1])"
    by (simp add: rectBody_def buffer_read_def parseRectHeader_def field16_def field32_def
          handleRect_def isPseudoEncoding_def Let_def)
  have me: "encoding (parseRectHeader (fst (buffer_read (int sz_rfbFramebufferUpdateRectHeader) ?pp)))
             \<in> set (rfbEncodingLastRect # metadataEncodings)"
    by (simp add: buffer_read_def Let_def pp metadataEncodings_def)
  note t = updated_rect_of_raw_rectangles [OF inb lm ty cnt wf mx m31 reg,
      where t = "mkRunning []" and b = ?pp and ?reg0.0 = "[mkRect 1 1 2 1]" and st = NextRect
        and t' = "mkRunning []" and b' = "?pp\<lparr>buf_pos := 12\<rparr>"
        and ?reg1.0 = "[mkRect 1 1 2 1]"]
  show ?thesis
    using t px rb me unfolding br
    by (simp add: mkRunning_def mkEngine_def mkSocket_def itemBytes_def)
qed

text \<open>
  The claim as stated fails in both halves. For two Raw rectangles of one pixel each at
  (0, 0) and (2, 2), inside the framebuffer, the exposed rectangle is the 3 by 3 bounding
  rectangle, which contains the point (1, 1) that lies in neither rectangle. And a
  rectangle that carries the cursor-shape encoding XCursor, for a cursor of 2 by 2
  pixels, is added to the region like a rectangle of pixel data: the exposed rectangle
  of an update that holds nothing else is that rectangle, of four points.
\<close>

theorem bounding_rect_and_cursor_counterexample:
  "receiveMessage 64
     (mkRunning ([0, 0, 0, 2] @ [0, 0, 0, 0, 0, 1, 0, 1, 0, 0, 0, 0] @ [7]
                 @ [0, 2, 0, 2, 0, 1, 0, 1, 0, 0, 0, 0] @ [9] @ [2])) =
     (True, (mkRunning [2])
        \<lparr>m_lastMessage := [0, 0, 0, 2] @ [0, 0, 0, 0, 0, 1, 0, 1, 0, 0, 0, 0] @ [7]
                            @ [0, 2, 0, 2, 0, 1, 0, 1, 0, 0, 0, 0] @ [9],
          m_lastUpdatedRect := mkRect 0 0 3 3\<rparr>) \<and>
   (1, 1) \<in> rect_points (mkRect 0 0 3 3) \<and>
   (1, 1) \<notin> rect_points (mkRect 0 0 1 1) \<union> rect_points (mkRect 2 2 1 1) \<and>
   rect_points (mkRect 0 0 3 3) \<noteq> rect_points (mkRect 0 0 1 1) \<union> rect_points (mkRect 2 2 1 1) \<and>
   encoding (parseRectHeader [0, 1, 0, 1, 0, 2, 0, 2, 255, 255, 255, 16]) = rfbEncodingXCursor \<and>
   receiveMessage 64
     (mkRunning ([0, 0, 0, 1] @ [0, 1, 0, 1, 0, 2, 0, 2, 255, 255, 255, 16]
                 @ [1, 2, 3, 4, 5, 6] @ [8, 8, 8, 8] @ [2])) =
     (True, (mkRunning [2])
        \<lparr>m_lastMessage := [0, 0, 0, 1] @ [0, 1, 0, 1, 0, 2, 0, 2, 255, 255, 255, 16]
                            @ [1, 2, 3, 4, 5, 6] @ [8, 8, 8, 8],
          m_lastUpdatedRect := mkRect 1 1 2 2\<rparr>) \<and>
   (1, 1) \<in> rect_points (mkRect 1 1 2 2)"
proof -
  have a: "(1, 1) \<in> rect_points (mkRect 0 0 3 3)"
    and b: "(1, 1) \<notin> rect_points (mkRect 0 0 1 1) \<union> rect_points (mkRect 2 2 1 1)"
    and d: "(1, 1) \<in> rect_points (mkRect 1 1 2 2)"
    by (simp_all add: rect_points_def mkRect_def)
  then have c: "rect_points (mkRect 0 0 3 3) \<noteq> rect_points (mkRect 0 0 1 1) \<union> rect_points (mkRect 2 2 1 1)"
    by blast
  let ?h1 = "[0, 0, 0, 0, 0, 1, 0, 1, 0, 0, 0, 0] :: byte list"
  let ?h2 = "[0, 2, 0, 2, 0, 1, 0, 1, 0, 0, 0, 0] :: byte list"
  let ?items = "[(?h1, [7]), (?h2, [9])] :: rectItem list"
  let ?s = "mkRunning ([0, 0, 0, 2] @ ?h1 @ [7] @ ?h2 @ [9] @ [2])"
  have p1: "parseRectHeader ?h1 = \<lparr>r_x = 0, r_y = 0, r_w = 1, r_h = 1, encoding = 0\<rparr>"
    and p2: "parseRectHeader ?h2 = \<lparr>r_x = 2, r_y = 2, r_w = 1, r_h = 1, encoding = 0\<rparr>"
    by (simp_all add: parseRectHeader_def field16_def field32_def)
  have bpp: "\<And>bs. bitsPerPixel (m_pixelFormat (mkRunning bs)) div 8 = 1"
    by (simp add: mkRunning_def bitsPerPixel_def)
  have geo: "\<And>bs. m_framebufferWidth (mkRunning bs) = 10"
    "\<And>bs. m_framebufferHeight (mkRunning bs) = 10"
    by (simp_all add: mkRunning_def)
  have inb: "inbuf (m_socket ?s) = [0, 0, 0, 2] @ concat (map itemBytes ?items) @ [2]"
    by (simp add: mkRunning_def mkEngine_def mkSocket_def itemBytes_def)
  have lm: "length [0, 0, 0, 2 :: byte] = sz_rfbFramebufferUpdateMsg"
    and ty: "hd [0, 0, 0, 2 :: byte] = rfbFramebufferUpdate"
    and cnt: "field16 2 [0, 0, 0, 2] = length ?items"
    by (simp_all add: field16_def)
  have wf: "list_all (rawOrMetadata (bitsPerPixel (m_pixelFormat ?s) div 8)) ?items"
    by (simp add: bpp rawOrMetadata_def itemHeader_def p1 p2 payloadSize_def)
  have mx: "length (inbuf (m_socket ?s)) \<le> 64"
    unfolding inb by (simp add: itemBytes_def)
  have m31: "(64 :: nat) < 2 ^ 31"
    by simp
  have reg: "rawRegion (m_framebufferWidth ?s) (m_framebufferHeight ?s) ?items
               = [mkRect 0 0 1 1, mkRect 2 2 1 1]"
    by (simp add: geo rawRegion_def itemHeader_def p1 p2 pixelRegion_def region_add_def
          rect_isEmpty_def rectOf_def mkRect_def)
  have br: "boundingRect [mkRect 0 0 1 1, mkRect 2 2 1 1] = mkRect 0 0 3 3"
    by (simp add: rect_united_def mkRect_def)
  have two: "receiveMessage 64 ?s =
     (True, (mkRunning [2])
        \<lparr>m_lastMessage := [0, 0, 0, 2] @ ?h1 @ [7] @ ?h2 @ [9],
          m_lastUpdatedRect := mkRect 0 0 3 3\<rparr>)"
    using framebufferUpdate_items [OF inb lm ty cnt wf mx m31] unfolding reg br
    by (simp add: mkRunning_def mkEngine_def mkSocket_def itemBytes_def)
  have e: "encoding (parseRectHeader [0, 1, 0, 1, 0, 2, 0, 2, 255, 255, 255, 16]) = rfbEncodingXCursor"
    by (simp add: parseRectHeader_def field32_def)
  have cur: "receiveMessage 64
     (mkRunning ([0, 0, 0, 1] @ [0, 1, 0, 1, 0, 2, 0, 2, 255, 255, 255, 16]
                 @ [1, 2, 3, 4, 5, 6] @ [8, 8, 8, 8] @ [2])) =
     (True, (mkRunning [2])
        \<lparr>m_lastMessage := [0, 0, 0, 1] @ [0, 1, 0, 1, 0, 2, 0, 2, 255, 255, 255, 16]
                            @ [1, 2, 3, 4, 5, 6] @ [8, 8, 8, 8],
          m_lastUpdatedRect := mkRect 1 1 2 2\<rparr>)"
    by (simp add: receiveMessage_def receiveFramebufferUpdateMessage_def readMessage_def
          rectBody_def handleRect_def isPseudoEncoding_def andAlso_def read_int_ok_def
          read_uint_ok_def buffer_read_def parseRectHeader_def field16_def field32_def
          to_int_def u32_def sock_defs mkRunning_def mkEngine_def mkSocket_def Let_def
          bitsPerPixel_def region_add_def rect_isEmpty_def mkRect_def)
  show ?thesis
    using a b c d two e cur by simp
qed

subsection \<open>Messages in the Running state\<close>



















subsection \<open>Two edge cases of the size arithmetic\<close>

text \<open>
  The name of the server-init message is awaited by peeking \<^verbatim>\<open>nameLength\<close> bytes from
  the start of the stream, the header included: with the header declaring 255 name bytes
  and only 231 of them buffered (255 bytes in all), \<^verbatim>\<open>read()\<close> already returns true
  and enters Running, having consumed the 255 bytes as header and name.
\<close>

lemma server_init_truncated_name:
  "read xorCipher (mkEngine FramebufferInit (serverInitHeader 255 @ replicate 231 65)) =
     (True, (mkEngine Running [])
              \<lparr>m_serverInitMessage := serverInitHeader 255 @ replicate 231 65,
                m_pixelFormat := [32, 24, 0, 1, 0, 255, 0, 255, 0, 255, 16, 8, 0, 0, 0, 0],
                m_framebufferWidth := 1024, m_framebufferHeight := 768\<rparr>)"
  by (simp add: read_def receiveServerInitMessage_def sock_defs mkEngine_def mkSocket_def
        serverInitHeader_def field32_def field16_def)

text \<open>
  A ServerCutText header whose length field is \<^verbatim>\<open>0xFFFFFFF8\<close> gives the message size
  \<open>8 + (-8) = 0\<close>: \<^verbatim>\<open>receiveMessage()\<close> returns true and has consumed nothing.
\<close>

lemma cut_text_zero_size:
  "receiveMessage 64 (mkEngine Running [3, 0, 0, 0, 255, 255, 255, 248]) =
     (True, mkEngine Running [3, 0, 0, 0, 255, 255, 255, 248])"
  by (simp add: receiveMessage_def receiveCutTextMessage_def readMessage_def field32_def
        to_int_def u32_def sock_defs mkEngine_def mkSocket_def)

end
